theory Spec2Isabelle
  imports Main "HOL-Library.Char_ord" "HOL-Library.List_Lexorder"
begin

section \<open>The mzbuild system for Docker images (misc/python/materialize/mzbuild.py)\<close>

text \<open>
  Conventions of the embedding.
  \<^item> Python \<open>bytes\<close> and \<open>str\<close> are both lists of 8-bit characters; a \<open>str\<close> is
    represented by its UTF-8 encoding, so \<open>encode()\<close> is the identity. Python compares
    strings by code point, which on UTF-8 is the lexicographic order of the bytes:
    the order of \<open>char list\<close> from \<open>Char_ord\<close> and \<open>List_Lexorder\<close>.
  \<^item> A raised exception is the \<open>Inl\<close> branch of a sum.
  \<^item> Modules of the repository that the functions call but that are not part of the
    verified file (\<open>git\<close>, \<open>cargo\<close>, \<open>rustc_flags\<close>, \<open>spawn\<close>, \<open>ui\<close>, \<open>xcompile\<close>),
    the Python library (\<open>hashlib\<close>, \<open>base64\<close>, \<open>multiprocessing\<close>) and the outside world
    (file system, Docker daemon, registry) are fields of the record \<open>env\<close>.
\<close>

type_synonym bytes = string

type_synonym Path = string

text \<open>\<open>xcompile.Arch\<close>: an enum member is represented by its \<open>str()\<close>.\<close>

type_synonym Arch = string

text \<open>\<open>rustc_flags.Sanitizer\<close>, with the members the docstring of \<open>RepositoryDetails\<close> lists;
  \<open>sanitizer_value\<close> is the member's \<open>.value\<close>.\<close>

datatype Sanitizer = address | hwaddress | cfi | thread | leak | memory | none

fun sanitizer_value :: "Sanitizer \<Rightarrow> string" where
  "sanitizer_value address = ''address''"
| "sanitizer_value hwaddress = ''hwaddress''"
| "sanitizer_value cfi = ''cfi''"
| "sanitizer_value thread = ''thread''"
| "sanitizer_value leak = ''leak''"
| "sanitizer_value memory = ''memory''"
| "sanitizer_value none = ''none''"

datatype error =
    ValueError string
  | KeyError string
  | AssertionError string
  | OverflowError
  | OSError Path
  | UnicodeDecodeError
  | CalledProcessError "string list"

record RepositoryDetails =
  root :: Path
  arch :: Arch
  release_mode :: bool
  coverage :: bool
  sanitizer :: Sanitizer
  image_registry :: string
  image_prefix :: string

subsection \<open>Strings\<close>

text \<open>\<open>sep.join(xs)\<close>.\<close>

fun join :: "string \<Rightarrow> string list \<Rightarrow> string" where
  "join sep [] = []"
| "join sep [x] = x"
| "join sep (x # y # ys) = x @ sep @ join sep (y # ys)"

text \<open>\<open>list(s)\<close> for a string \<open>s\<close>: its characters, each a string of length one. This is
  what \<open>flags += s\<close> appends to a list \<open>flags\<close>.\<close>

definition chars :: "string \<Rightarrow> string list" where
  "chars s = map (\<lambda>c. [c]) s"

text \<open>\<open>str(b)\<close> for a bool, \<open>str(n)\<close> for a non-negative int.\<close>

definition str_bool :: "bool \<Rightarrow> string" where
  "str_bool b = (if b then ''True'' else ''False'')"

definition digit_char :: "nat \<Rightarrow> char" where
  "digit_char d = ''0123456789'' ! d"

fun str_nat :: "nat \<Rightarrow> string" where
  "str_nat n = (if n < 10 then [digit_char n] else str_nat (n div 10) @ [digit_char (n mod 10)])"

declare str_nat.simps [simp del]

subsection \<open>The parsed manifest \<open>mzbuild.yml\<close>\<close>

text \<open>The dictionary \<open>yaml.safe_load\<close> returns, with the keys the code pops; an absent key
  is \<open>None\<close>. A \<open>bin\<close> or \<open>example\<close> is one string or a list of strings.\<close>

datatype yaml_strs = One string | Many "string list"

record pre_image_config =
  c_type :: "string option"
  c_bin :: "yaml_strs option"
  c_example :: "yaml_strs option"
  c_strip :: "bool option"
  c_extract :: "(string \<times> (string \<times> string) list) list option"
  c_source :: "string option"
  c_destination :: "string option"
  c_matching :: "string option"

record manifest =
  m_name :: "string option"
  m_publish :: "bool option"
  m_description :: "string option"
  m_mainline :: "bool option"
  m_pre_image :: "pre_image_config list option"
  m_build_args :: "(string \<times> string) list option"

subsection \<open>Pre-image actions\<close>

text \<open>The classes \<open>Copy\<close> and \<open>CargoBuild\<close> (a \<open>CargoPreImage\<close>). \<open>cb_acquired\<close> is the
  attribute \<open>acquired\<close> that \<open>CargoBuild.build\<close> sets on the action; it is absent (here
  \<open>False\<close>) until then.\<close>

datatype PreImage =
    Copy (pi_rd: RepositoryDetails) (pi_path: Path)
      (source: string) (destination: string) (matching: string)
  | CargoBuild (pi_rd: RepositoryDetails) (pi_path: Path)
      (bins: "string list") (examples: "string list") (strip: bool)
      (extract_map: "(string \<times> (string \<times> string) list) list") (cb_acquired: bool)

text \<open>\<open>CargoPreImage.extra\<close> (lines 248-259) and \<open>PreImage.extra\<close> (lines 198-200), which
  \<open>Copy\<close> inherits.\<close>

definition CargoPreImage_extra :: "RepositoryDetails \<Rightarrow> string" where
  "CargoPreImage_extra r =
    (let flags = [];
         flags = (if release_mode r then flags @ chars ''release'' else flags);
         flags = (if coverage r then flags @ chars ''coverage'' else flags);
         flags = (if sanitizer r \<noteq> none then flags @ chars (sanitizer_value (sanitizer r))
                  else flags);
         flags = sort flags
     in join '','' flags)"

fun extra :: "PreImage \<Rightarrow> string" where
  "extra (Copy r p s d m) = ''''"
| "extra (CargoBuild r p bs es st ex a) = CargoPreImage_extra r"

subsection \<open>The environment\<close>

record env =
  \<comment> \<open>\<open>hashlib.sha1(data).digest()\<close> and \<open>base64.b32encode(data).decode()\<close>\<close>
  sha1 :: "bytes \<Rightarrow> bytes"
  b32encode :: "bytes \<Rightarrow> string"
  \<comment> \<open>\<open>str(s)\<close> for a \<open>Sanitizer\<close>\<close>
  str_sanitizer :: "Sanitizer \<Rightarrow> string"
  \<comment> \<open>\<open>git.expand_globs(root, *specs)\<close>\<close>
  expand_globs :: "Path \<Rightarrow> string set \<Rightarrow> string set"
  \<comment> \<open>\<open>os.lstat(path).st_mode\<close> and the contents \<open>open(path, "rb").read()\<close>; \<open>None\<close> raises\<close>
  lstat_mode :: "Path \<Rightarrow> nat option"
  file_contents :: "Path \<Rightarrow> bytes option"
  \<comment> \<open>the cargo workspace: the name of the crate of a binary or example, and the union of
      the \<open>inputs()\<close> of the crate's transitive path dependencies\<close>
  crate_for_bin_name :: "string \<Rightarrow> string"
  crate_for_example_name :: "string \<Rightarrow> string"
  bin_inputs :: "string \<Rightarrow> string set"
  example_inputs :: "string \<Rightarrow> string set"
  \<comment> \<open>\<open>rustc_flags.coverage\<close>, \<open>rustc_flags.sanitizer[s]\<close>, \<open>rustc_flags.sanitizer_cflags[s]\<close>\<close>
  rustc_flags_coverage :: "string list"
  rustc_flags_sanitizer :: "Sanitizer \<Rightarrow> string list"
  rustc_flags_sanitizer_cflags :: "Sanitizer \<Rightarrow> string list"
  \<comment> \<open>\<open>xcompile.target(arch)\<close>, \<open>arch.go_str()\<close> and
      \<open>xcompile.cargo(arch, channel, subcommand, rustflags, extra_env)\<close>\<close>
  xcompile_target :: "Arch \<Rightarrow> string"
  go_str :: "Arch \<Rightarrow> string"
  xcompile_cargo ::
    "Arch \<Rightarrow> string option \<Rightarrow> string \<Rightarrow> string list \<Rightarrow> (string \<times> string) list \<Rightarrow> string list"
  \<comment> \<open>\<open>multiprocessing.cpu_count()\<close>\<close>
  cpu_count :: nat
  \<comment> \<open>the order in which Python iterates over a set of strings\<close>
  set_iter :: "string set \<Rightarrow> string list"
  \<comment> \<open>what \<open>docker_images()\<close> (lines 132-138) and \<open>is_docker_image_pushed(name)\<close> (lines
      141-152) return, which only run a Docker command; whether \<open>spawn.runv(cmd)\<close> succeeds;
      and what \<open>spawn.run_with_retries\<close> of \<open>docker pull spec\<close> with a retry budget does\<close>
  docker_images :: "string set"
  is_docker_image_pushed :: "string \<Rightarrow> bool"
  runv_ok :: "string list \<Rightarrow> bool"
  pull_with_retries :: "string \<Rightarrow> nat \<Rightarrow> error + unit"
  \<comment> \<open>\<open>ui.env_is_truthy("CI")\<close>, the output \<open>spawn.capture(cmd)\<close> returns, whether the file
      copies and tool invocations of \<open>pre_image.run\<close> succeed, the exit status of a shell
      command started with \<open>subprocess.Popen\<close>, and \<open>shlex.quote\<close>\<close>
  ci :: bool
  capture_output :: "string list \<Rightarrow> error + string"
  pre_image_effects_ok :: "PreImage \<Rightarrow> bool"
  popen_returncode :: "string \<Rightarrow> nat"
  shlex_quote :: "string \<Rightarrow> string"
  \<comment> \<open>\<open>yaml.safe_load\<close> of an opened manifest (\<open>None\<close> raises), whether \<open>bytes.decode()\<close>
      accepts bytes as UTF-8, and the expansion by \<open>re.sub\<close> of a replacement template that
      contains a backslash, given the text of group 1\<close>
  load_manifest :: "Path \<Rightarrow> manifest option"
  decodes :: "bytes \<Rightarrow> bool"
  re_expand_template :: "bytes \<Rightarrow> bytes \<Rightarrow> error + bytes"

subsection \<open>\<open>CargoBuild.generate_cargo_build_command\<close> (lines 280-348)\<close>

text \<open>\<open>round(p / q)\<close> for ints \<open>p \<ge> 0\<close> and \<open>q > 0\<close>: the integer nearest to the quotient,
  the even one on a tie. Python divides in double precision and rounds the double; the
  double nearest to \<open>2 * n / 3\<close> lies within \<open>2 * n * 2 ^ -53\<close> of the rational, whose distance
  from every tie \<open>k + 1 / 2\<close> is at least \<open>1 / 6\<close>, so for every CPU count below \<open>2 ^ 49\<close> the
  double and the rational round to the same integer.\<close>

definition py_round_div :: "nat \<Rightarrow> nat \<Rightarrow> nat" where
  "py_round_div p q =
    (let fl = p div q; r = p mod q in
     if 2 * r < q then fl
     else if q < 2 * r then fl + 1
     else if even fl then fl else fl + 1)"

definition cargo_rustflags :: "env \<Rightarrow> RepositoryDetails \<Rightarrow> string list" where
  "cargo_rustflags e r =
    (if coverage r then rustc_flags_coverage e
     else if sanitizer r \<noteq> none then rustc_flags_sanitizer e (sanitizer r)
     else [''--cfg=tokio_unstable''])"

definition cargo_cflags :: "env \<Rightarrow> RepositoryDetails \<Rightarrow> string list" where
  "cargo_cflags e r =
    (let t = xcompile_target e (arch r) in
     if sanitizer r \<noteq> none then
       [''--target='' @ t,
        ''--gcc-toolchain=/opt/x-tools/'' @ t @ ''/'',
        ''-fuse-ld=lld'',
        ''--sysroot=/opt/x-tools/'' @ t @ ''/'' @ t @ ''/sysroot'',
        ''-L/opt/x-tools/'' @ t @ ''/'' @ t @ ''/lib64'']
       @ rustc_flags_sanitizer_cflags e (sanitizer r)
     else [])"

definition cargo_extra_env :: "env \<Rightarrow> RepositoryDetails \<Rightarrow> (string \<times> string) list" where
  "cargo_extra_env e r =
    (let cflags = cargo_cflags e r in
     if sanitizer r \<noteq> none then
       [(''CFLAGS'', join '' '' cflags),
        (''CXXFLAGS'', join '' '' cflags),
        (''LDFLAGS'', join '' '' cflags),
        (''CXXSTDLIB'', ''stdc++''),
        (''CC'', ''cc''),
        (''CXX'', ''c++''),
        (''CPP'', ''clang-cpp-15''),
        (''CARGO_TARGET_X86_64_UNKNOWN_LINUX_GNU_LINKER'', ''cc''),
        (''CARGO_TARGET_AARCH64_UNKNOWN_LINUX_GNU_LINKER'', ''cc''),
        (''PATH'', ''/sanshim:/opt/x-tools/'' @ xcompile_target e (arch r)
           @ ''/bin:/usr/local/sbin:/usr/local/bin:/usr/sbin:/usr/bin:/sbin:/bin''),
        (''TSAN_OPTIONS'', ''report_bugs=0'')]
     else [])"

text \<open>The two loops over \<open>bins\<close> and \<open>examples\<close>: the command and the set \<open>packages\<close>.\<close>

fun add_bins :: "env \<Rightarrow> string list \<Rightarrow> string list \<times> string set \<Rightarrow> string list \<times> string set"
  where
  "add_bins e [] acc = acc"
| "add_bins e (b # bs) (cmd, packages) =
     add_bins e bs (cmd @ [''--bin'', b], insert (crate_for_bin_name e b) packages)"

fun add_examples ::
  "env \<Rightarrow> string list \<Rightarrow> string list \<times> string set \<Rightarrow> string list \<times> string set"
  where
  "add_examples e [] acc = acc"
| "add_examples e (x # xs) (cmd, packages) =
     add_examples e xs
       (cmd @ [''--example'', x], insert (crate_for_example_name e x) packages)"

definition generate_cargo_build_command ::
  "env \<Rightarrow> RepositoryDetails \<Rightarrow> string list \<Rightarrow> string list \<Rightarrow> string list" where
  "generate_cargo_build_command e r bs xs =
    (let cargo_build =
           xcompile_cargo e (arch r) None ''build'' (cargo_rustflags e r) (cargo_extra_env e r);
         (cargo_build, packages) = add_bins e bs (cargo_build, {});
         (cargo_build, packages) = add_examples e xs (cargo_build, packages);
         cargo_build = cargo_build @ map (\<lambda>p. ''--package='' @ p) (set_iter e packages);
         cargo_build = (if release_mode r then cargo_build @ [''--release''] else cargo_build);
         cargo_build =
           (if sanitizer r \<noteq> none then
              cargo_build @ [''--no-default-features'']
                @ [''--jobs'', str_nat (py_round_div (cpu_count e * 2) 3)]
            else cargo_build)
     in cargo_build)"

subsection \<open>Images\<close>

record Image =
  rd :: RepositoryDetails
  path :: Path
  pre_images :: "PreImage list"
  name :: string
  publish :: bool
  description :: "string option"
  mainline :: bool
  build_args :: "(string \<times> string) list"
  depends_on :: "string list"

text \<open>\<open>dir / file\<close> on paths.\<close>

definition path_join :: "Path \<Rightarrow> string \<Rightarrow> Path" where
  "path_join d f = d @ ''/'' @ f"

text \<open>\<open>d.pop(key, default)\<close> on an optional key.\<close>

definition pop_default :: "'a \<Rightarrow> 'a option \<Rightarrow> 'a" where
  "pop_default d v = (case v of None \<Rightarrow> d | Some x \<Rightarrow> x)"

text \<open>\<open>x if isinstance(x, list) else [x]\<close>.\<close>

fun as_list :: "yaml_strs \<Rightarrow> string list" where
  "as_list (One s) = [s]"
| "as_list (Many ss) = ss"

text \<open>\<open>Copy.__init__\<close> (lines 210-221) and \<open>CargoBuild.__init__\<close> (lines 269-278).\<close>

definition Copy_init :: "RepositoryDetails \<Rightarrow> Path \<Rightarrow> pre_image_config \<Rightarrow> error + PreImage" where
  "Copy_init r p config =
    (case c_source config of
       None \<Rightarrow> Inl (ValueError ''mzbuild config is missing 'source' argument'')
     | Some src \<Rightarrow>
        (case c_destination config of
           None \<Rightarrow> Inl (ValueError ''mzbuild config is missing 'destination' argument'')
         | Some dst \<Rightarrow> Inr (Copy r p src dst (pop_default ''*'' (c_matching config)))))"

definition CargoBuild_init ::
  "RepositoryDetails \<Rightarrow> Path \<Rightarrow> pre_image_config \<Rightarrow> error + PreImage" where
  "CargoBuild_init r p config =
    (let bs = as_list (pop_default (Many []) (c_bin config));
         xs = as_list (pop_default (Many []) (c_example config));
         st = pop_default True (c_strip config);
         ex = pop_default [] (c_extract config)
     in if length bs = 0 \<and> length xs = 0
        then Inl (ValueError ''mzbuild config is missing pre-build target'')
        else Inr (CargoBuild r p bs xs st ex False))"

text \<open>The regular expression \<open>^MZFROM\s*(\S+)\<close> on bytes, matched at the start of a line:
  the text of group 1 and the text after the match. Both repetitions are greedy, and giving
  back white space cannot make \<open>\S+\<close> match, so the line matches when the first byte after
  \<open>MZFROM\<close> and the white space following it is not white space.\<close>

definition is_space :: "char \<Rightarrow> bool" where
  "is_space c = (c \<in> set [CHR '' '', CHR 0x09, CHR 0x0A, CHR 0x0B, CHR 0x0C, CHR 0x0D])"

definition mzfrom_match :: "bytes \<Rightarrow> (bytes \<times> bytes) option" where
  "mzfrom_match line =
    (if take 6 line = ''MZFROM'' then
       (let rest = dropWhile is_space (drop 6 line);
            g = takeWhile (\<lambda>c. \<not> is_space c) rest
        in if g = [] then None else Some (g, dropWhile (\<lambda>c. \<not> is_space c) rest))
     else None)"

text \<open>The lines of a file opened in binary mode, each with its line feed.\<close>

fun split_lines :: "bytes \<Rightarrow> bytes list" where
  "split_lines [] = []"
| "split_lines (c # cs) =
    (if c = CHR 0x0A then [c] # split_lines cs
     else (case split_lines cs of [] \<Rightarrow> [[c]] | l # ls \<Rightarrow> (c # l) # ls))"

definition decode :: "env \<Rightarrow> bytes \<Rightarrow> error + string" where
  "decode e b = (if decodes e b then Inr b else Inl UnicodeDecodeError)"

text \<open>\<open>Image.__init__\<close> (lines 499-531): the loop over the \<open>pre-image\<close> entries, the check
  of the name (\<open>re.search(r"[^A-Za-z0-9\-]", name)\<close>), and the scan of the Dockerfile.\<close>

fun make_pre_images ::
  "RepositoryDetails \<Rightarrow> Path \<Rightarrow> pre_image_config list \<Rightarrow> PreImage list \<Rightarrow> error + PreImage list"
  where
  "make_pre_images r p [] acc = Inr acc"
| "make_pre_images r p (c # cs) acc =
    (if c_type c = Some ''cargo-build'' then
       (case CargoBuild_init r p c of
          Inl err \<Rightarrow> Inl err
        | Inr a \<Rightarrow> make_pre_images r p cs (acc @ [a]))
     else if c_type c = Some ''copy'' then
       (case Copy_init r p c of
          Inl err \<Rightarrow> Inl err
        | Inr a \<Rightarrow> make_pre_images r p cs (acc @ [a]))
     else Inl (ValueError (''mzbuild config in '' @ p @ '' has unknown pre-image type'')))"

definition name_char :: "char \<Rightarrow> bool" where
  "name_char c =
    (c \<in> set ''ABCDEFGHIJKLMNOPQRSTUVWXYZabcdefghijklmnopqrstuvwxyz0123456789-'')"

fun scan_depends_on :: "env \<Rightarrow> bytes list \<Rightarrow> string list \<Rightarrow> error + string list" where
  "scan_depends_on e [] acc = Inr acc"
| "scan_depends_on e (line # ls) acc =
    (case mzfrom_match line of
       None \<Rightarrow> scan_depends_on e ls acc
     | Some (g, rest) \<Rightarrow>
        (case decode e g of
           Inl err \<Rightarrow> Inl err
         | Inr d \<Rightarrow> scan_depends_on e ls (acc @ [d])))"

definition Image_init :: "env \<Rightarrow> RepositoryDetails \<Rightarrow> Path \<Rightarrow> error + Image" where
  "Image_init e r p =
    (case load_manifest e (path_join p ''mzbuild.yml'') of
       None \<Rightarrow> Inl (OSError (path_join p ''mzbuild.yml''))
     | Some data \<Rightarrow>
    (case m_name data of
       None \<Rightarrow> Inl (KeyError ''name'')
     | Some nm \<Rightarrow>
    (case make_pre_images r p (pop_default [] (m_pre_image data)) [] of
       Inl err \<Rightarrow> Inl err
     | Inr pis \<Rightarrow>
        if \<not> list_all name_char nm then
          Inl (ValueError (''mzbuild image name '' @ nm
            @ '' contains invalid character; only alphanumerics and hyphens allowed''))
        else
    (case file_contents e (path_join p ''Dockerfile'') of
       None \<Rightarrow> Inl (OSError (path_join p ''Dockerfile''))
     | Some df \<Rightarrow>
    (case scan_depends_on e (split_lines df) [] of
       Inl err \<Rightarrow> Inl err
     | Inr deps \<Rightarrow>
        Inr \<lparr> rd = r, path = p, pre_images = pis, name = nm,
              publish = pop_default True (m_publish data),
              description = m_description data,
              mainline = pop_default True (m_mainline data),
              build_args = pop_default [] (m_build_args data),
              depends_on = deps \<rparr>)))))"

text \<open>\<open>Image.docker_name\<close> (lines 559-564).\<close>

definition docker_name :: "Image \<Rightarrow> string option \<Rightarrow> string" where
  "docker_name img tag =
    (let nm = image_registry (rd img) @ ''/'' @ image_prefix (rd img) @ name img
     in case tag of
          None \<Rightarrow> nm
        | Some t \<Rightarrow> if t \<noteq> [] then nm @ '':'' @ t else nm)"

subsection \<open>Resolved images\<close>

text \<open>\<open>dependencies\<close> is the dictionary from dependency name to \<open>ResolvedImage\<close>; the key of
  an entry is always the name of its value, so the dictionary is the list of its values in
  insertion order. The entries are references to the objects of the \<open>DependencySet\<close>; no
  function of this file reads \<open>acquired\<close> through them.\<close>

datatype ResolvedImage =
  ResolvedImage (image: Image) (acquired: bool) (dependencies: "ResolvedImage list")

text \<open>\<open>d[r.name] = r\<close> on such a dictionary, and \<open>d[k]\<close>.\<close>

fun dict_put :: "ResolvedImage \<Rightarrow> ResolvedImage list \<Rightarrow> ResolvedImage list" where
  "dict_put r [] = [r]"
| "dict_put r (x # xs) =
    (if name (image x) = name (image r) then r # xs else x # dict_put r xs)"

fun dict_get :: "ResolvedImage list \<Rightarrow> string \<Rightarrow> error + ResolvedImage" where
  "dict_get [] k = Inl (KeyError k)"
| "dict_get (x # xs) k = (if name (image x) = k then Inr x else dict_get xs k)"

text \<open>\<open>ResolvedImage.__init__\<close> (lines 577-582).\<close>

definition ResolvedImage_init :: "Image \<Rightarrow> ResolvedImage list \<Rightarrow> ResolvedImage" where
  "ResolvedImage_init img ds = ResolvedImage img False (fold dict_put ds [])"

text \<open>\<open>inputs()\<close> of the pre-image actions (lines 230-231, 237-246, 464-477).\<close>

definition CargoPreImage_inputs :: "string set" where
  "CargoPreImage_inputs = {''ci/builder'', ''Cargo.toml'', ''Cargo.lock'', ''.cargo/config''}"

fun PreImage_inputs :: "env \<Rightarrow> PreImage \<Rightarrow> string set" where
  "PreImage_inputs e (Copy r p src dst m) = expand_globs e (path_join (root r) src) {m}"
| "PreImage_inputs e (CargoBuild r p bs xs st ex a) =
     CargoPreImage_inputs \<union> (\<Union> (bin_inputs e ` set bs) \<union> \<Union> (example_inputs e ` set xs))"

text \<open>\<open>ResolvedImage.inputs\<close> (lines 702-725).\<close>

fun inputs :: "env \<Rightarrow> ResolvedImage \<Rightarrow> bool \<Rightarrow> error + string set"
  and inputs_deps :: "env \<Rightarrow> ResolvedImage list \<Rightarrow> bool \<Rightarrow> string set \<Rightarrow> error + string set"
  where
  "inputs e (ResolvedImage img acq deps) transitive =
    (let paths = expand_globs e (root (rd img)) {path img @ ''/**''} in
     if paths = {} then
       Inl (AssertionError (name img @ '' mzbuild exists but its files are unknown to git''))
     else
       (let paths = fold (\<lambda>pre_image acc. acc \<union> PreImage_inputs e pre_image)
                      (pre_images img) paths
        in if transitive then inputs_deps e deps transitive paths else Inr paths))"
| "inputs_deps e [] transitive paths = Inr paths"
| "inputs_deps e (dep # deps) transitive paths =
    (case inputs e dep transitive of
       Inl err \<Rightarrow> Inl err
     | Inr ps \<Rightarrow> inputs_deps e deps transitive (paths \<union> ps))"

subsection \<open>\<open>ResolvedImage.fingerprint\<close> (lines 727-776)\<close>

text \<open>\<open>stat.S_ISLNK\<close> and \<open>stat.S_IXUSR\<close>: the file type bits \<open>0o170000\<close> are \<open>61440\<close>, the type
  of a symbolic link \<open>0o120000\<close> is \<open>40960\<close>, and the owner's execute bit \<open>0o100\<close> is \<open>64\<close>.
  The simplified modes \<open>0o100755\<close> and \<open>0o100644\<close> are \<open>33261\<close> and \<open>33188\<close>.\<close>

definition S_ISLNK :: "nat \<Rightarrow> bool" where
  "S_ISLNK m = (and m 61440 = 40960)"

definition S_IXUSR :: nat where
  "S_IXUSR = 64"

definition simplified_file_mode :: "nat \<Rightarrow> nat" where
  "simplified_file_mode raw_file_mode =
    (if S_ISLNK raw_file_mode then 40960
     else if and raw_file_mode S_IXUSR \<noteq> 0 then 33261
     else 33188)"

text \<open>\<open>n.to_bytes(2, byteorder="big")\<close>.\<close>

definition to_bytes2_big :: "nat \<Rightarrow> error + bytes" where
  "to_bytes2_big n =
    (if n < 65536 then Inr [char_of (n div 256), char_of (n mod 256)] else Inl OverflowError)"

text \<open>A hash object is the bytes fed to it so far: \<open>update\<close> appends and \<open>digest\<close> hashes
  them. The first loop feeds \<open>self_hash\<close> one file after the other.\<close>

fun feed_files :: "env \<Rightarrow> Path \<Rightarrow> string list \<Rightarrow> bytes \<Rightarrow> error + bytes" where
  "feed_files e rt [] self_hash = Inr self_hash"
| "feed_files e rt (rel_path # ps) self_hash =
    (let abs_path = path_join rt rel_path in
     case lstat_mode e abs_path of
       None \<Rightarrow> Inl (OSError abs_path)
     | Some raw_file_mode \<Rightarrow>
        (case file_contents e abs_path of
           None \<Rightarrow> Inl (OSError abs_path)
         | Some contents \<Rightarrow>
            (let file_hash = [] @ contents in
             case to_bytes2_big (simplified_file_mode raw_file_mode) of
               Inl err \<Rightarrow> Inl err
             | Inr mode_bytes \<Rightarrow>
                 feed_files e rt ps
                   (self_hash @ mode_bytes @ rel_path @ sha1 e file_hash @ [CHR 0x00]))))"

fun feed_extras :: "PreImage list \<Rightarrow> bytes \<Rightarrow> bytes" where
  "feed_extras [] self_hash = self_hash"
| "feed_extras (pre_image # ps) self_hash =
     feed_extras ps (self_hash @ extra pre_image @ [CHR 0x00])"

text \<open>The last loop, over the dependencies sorted by name, given each name and the result
  of \<open>dep.fingerprint()\<close>.\<close>

fun feed_deps :: "(string \<times> (error + bytes)) list \<Rightarrow> bytes \<Rightarrow> error + bytes" where
  "feed_deps [] full_hash = Inr full_hash"
| "feed_deps ((nm, fp) # ds) full_hash =
    (case fp of
       Inl err \<Rightarrow> Inl err
     | Inr f \<Rightarrow> feed_deps ds (full_hash @ nm @ f @ [CHR 0x00]))"

fun fingerprint :: "env \<Rightarrow> ResolvedImage \<Rightarrow> error + bytes" where
  "fingerprint e (ResolvedImage img acq deps) =
    (case inputs e (ResolvedImage img acq deps) False of
       Inl err \<Rightarrow> Inl err
     | Inr inp \<Rightarrow>
    (case feed_files e (root (rd img))
            (sorted_list_of_set (expand_globs e (root (rd img)) inp)) [] of
       Inl err \<Rightarrow> Inl err
     | Inr self_hash \<Rightarrow>
        (let self_hash = feed_extras (pre_images img) self_hash;
             self_hash = self_hash @ (''arch='' @ arch (rd img));
             self_hash = self_hash @ (''coverage='' @ str_bool (coverage (rd img)));
             self_hash = self_hash @ (''sanitizer='' @ str_sanitizer e (sanitizer (rd img)));
             full_hash = [] @ sha1 e self_hash
         in case feed_deps
                   (map (\<lambda>dep. (name (image dep), fingerprint e dep))
                      (sort_key (\<lambda>d. name (image d)) deps))
                   full_hash of
              Inl err \<Rightarrow> Inl err
            | Inr full_hash \<Rightarrow> Inr (sha1 e full_hash))))"

text \<open>\<open>str(Fingerprint)\<close> (lines 53-54) and \<open>ResolvedImage.spec\<close> (lines 597-603).\<close>

definition spec :: "env \<Rightarrow> ResolvedImage \<Rightarrow> error + string" where
  "spec e r =
    (case fingerprint e r of
       Inl err \<Rightarrow> Inl err
     | Inr fp \<Rightarrow> Inr (docker_name (image r) (Some (''mzbuild-'' @ b32encode e fp))))"

subsection \<open>The repository and \<open>Repository.resolve_dependencies\<close> (lines 1035-1065)\<close>

text \<open>\<open>images\<close> and \<open>compositions\<close> are dictionaries in insertion order.\<close>

record Repository =
  repo_rd :: RepositoryDetails
  images :: "(string \<times> Image) list"
  compositions :: "(string \<times> Path) list"

text \<open>The two variables the closure \<open>visit\<close> shares: the \<open>OrderedDict\<close> \<open>resolved\<close> and the
  set \<open>visiting\<close>.\<close>

record resolver_state =
  resolved :: "(string \<times> Image) list"
  visiting :: "string set"

text \<open>\<open>d[k] = v\<close> on an ordered dictionary: a present key keeps its place.\<close>

fun od_set :: "string \<Rightarrow> Image \<Rightarrow> (string \<times> Image) list \<Rightarrow> (string \<times> Image) list" where
  "od_set k v [] = [(k, v)]"
| "od_set k v ((k', v') # kvs) =
    (if k' = k then (k, v) # kvs else (k', v') # od_set k v kvs)"

text \<open>\<open>visit\<close> and its loop over the sorted dependencies. The recursion of the source ends
  because every call that recurses adds a name to \<open>visiting\<close>; here the first argument bounds
  the depth of the recursion, and \<open>None\<close> says that the bound was reached.\<close>

fun visit ::
    "nat \<Rightarrow> (string \<times> Image) list \<Rightarrow> resolver_state \<Rightarrow> Image \<Rightarrow> string list
      \<Rightarrow> (error + resolver_state) option"
  and visit_deps ::
    "nat \<Rightarrow> (string \<times> Image) list \<Rightarrow> resolver_state \<Rightarrow> string list \<Rightarrow> string list
      \<Rightarrow> (error + resolver_state) option"
  where
  "visit 0 imgs st img pth = None"
| "visit (Suc n) imgs st img pth =
    (if name img \<in> fst ` set (resolved st) then Some (Inr st)
     else if name img \<in> visiting st then
       (let diagram = join '' -> '' (pth @ [name img])
        in Some (Inl (ValueError (''circular dependency in mzbuild: '' @ diagram))))
     else
       (case visit_deps n imgs (st\<lparr>visiting := insert (name img) (visiting st)\<rparr>)
               (sort (depends_on img)) (pth @ [name img]) of
          None \<Rightarrow> None
        | Some (Inl err) \<Rightarrow> Some (Inl err)
        | Some (Inr st') \<Rightarrow>
            Some (Inr (st'\<lparr>resolved := od_set (name img) img (resolved st')\<rparr>))))"
| "visit_deps n imgs st [] pth = Some (Inr st)"
| "visit_deps n imgs st (d # ds) pth =
    (case map_of imgs d of
       None \<Rightarrow> Some (Inl (KeyError d))
     | Some i \<Rightarrow>
        (case visit n imgs st i pth of
           None \<Rightarrow> None
         | Some (Inl err) \<Rightarrow> Some (Inl err)
         | Some (Inr st') \<Rightarrow> visit_deps n imgs st' ds pth))"

text \<open>The loop over the targets sorted by name.\<close>

fun visit_targets ::
  "nat \<Rightarrow> (string \<times> Image) list \<Rightarrow> resolver_state \<Rightarrow> Image list
    \<Rightarrow> (error + resolver_state) option" where
  "visit_targets n imgs st [] = Some (Inr st)"
| "visit_targets n imgs st (t # ts) =
    (case visit n imgs st t [] of
       None \<Rightarrow> None
     | Some (Inl err) \<Rightarrow> Some (Inl err)
     | Some (Inr st') \<Rightarrow> visit_targets n imgs st' ts)"

subsection \<open>\<open>DependencySet.__init__\<close> (lines 786-799)\<close>

text \<open>The dictionary \<open>_dependencies\<close>, as the list of its values in insertion order.\<close>

type_synonym DependencySet = "ResolvedImage list"

fun set_acquired :: "bool \<Rightarrow> ResolvedImage \<Rightarrow> ResolvedImage" where
  "set_acquired b (ResolvedImage img acq deps) = ResolvedImage img b deps"

text \<open>The generator \<open>(self._dependencies[d0] for d0 in d.depends_on)\<close>.\<close>

fun lookup_all :: "ResolvedImage list \<Rightarrow> string list \<Rightarrow> error + ResolvedImage list" where
  "lookup_all deps [] = Inr []"
| "lookup_all deps (d0 # ds) =
    (case dict_get deps d0 of
       Inl err \<Rightarrow> Inl err
     | Inr r \<Rightarrow> (case lookup_all deps ds of Inl err \<Rightarrow> Inl err | Inr rs \<Rightarrow> Inr (r # rs)))"

fun DependencySet_loop ::
  "env \<Rightarrow> string set \<Rightarrow> Image list \<Rightarrow> ResolvedImage list \<Rightarrow> error + DependencySet" where
  "DependencySet_loop e known_images [] deps = Inr deps"
| "DependencySet_loop e known_images (d # ds) deps =
    (case lookup_all deps (depends_on d) of
       Inl err \<Rightarrow> Inl err
     | Inr rs \<Rightarrow>
        (let img = ResolvedImage_init d rs in
         case spec e img of
           Inl err \<Rightarrow> Inl err
         | Inr s \<Rightarrow>
             DependencySet_loop e known_images ds
               (dict_put (set_acquired (s \<in> known_images) img) deps)))"

definition DependencySet_init :: "env \<Rightarrow> Image list \<Rightarrow> error + DependencySet" where
  "DependencySet_init e ds = DependencySet_loop e (docker_images e) ds []"

definition resolve_dependencies ::
  "nat \<Rightarrow> env \<Rightarrow> Repository \<Rightarrow> Image list \<Rightarrow> (error + DependencySet) option" where
  "resolve_dependencies n e repo targets =
    (case visit_targets n (images repo) \<lparr>resolved = [], visiting = {}\<rparr>
            (sort_key name targets) of
       None \<Rightarrow> None
     | Some (Inl err) \<Rightarrow> Some (Inl err)
     | Some (Inr st) \<Rightarrow> Some (DependencySet_init e (map snd (resolved st))))"

subsection \<open>External commands\<close>

text \<open>What the functions did to the outside world, in order: \<open>spawn.runv(cmd, stdin)\<close>,
  \<open>spawn.run_with_retries\<close> of a \<open>docker pull\<close>, \<open>spawn.capture(cmd)\<close>, and a shell command
  started with \<open>subprocess.Popen\<close>.\<close>

datatype event =
    Runv "string list" "bytes option"
  | PullWithRetries string nat
  | Captured "string list"
  | Popen string

definition runv :: "env \<Rightarrow> string list \<Rightarrow> bytes option \<Rightarrow> event list \<Rightarrow> error + event list" where
  "runv e cmd stdin tr =
    (if runv_ok e cmd then Inr (tr @ [Runv cmd stdin]) else Inl (CalledProcessError cmd))"

subsection \<open>\<open>ResolvedImage.write_dockerfile\<close> (lines 605-622)\<close>

text \<open>\<open>pattern.sub(repl, line)\<close> for a line the pattern matches: the match, at the start of the
  line, is replaced by the expansion of the template \<open>repl\<close>. A template without a backslash
  expands to itself.\<close>

definition expand_template :: "env \<Rightarrow> bytes \<Rightarrow> bytes \<Rightarrow> error + bytes" where
  "expand_template e repl g =
    (if CHR 0x5C \<in> set repl then re_expand_template e repl g else Inr repl)"

definition rewrite_line :: "env \<Rightarrow> ResolvedImage \<Rightarrow> bytes \<Rightarrow> error + bytes" where
  "rewrite_line e r line =
    (case mzfrom_match line of
       None \<Rightarrow> Inr line
     | Some (g, rest) \<Rightarrow>
        (case decode e g of
           Inl err \<Rightarrow> Inl err
         | Inr img \<Rightarrow>
            (case dict_get (dependencies r) img of
               Inl err \<Rightarrow> Inl err
             | Inr dep \<Rightarrow>
                (case spec e dep of
                   Inl err \<Rightarrow> Inl err
                 | Inr s \<Rightarrow>
                    (case expand_template e (''FROM '' @ s) g of
                       Inl err \<Rightarrow> Inl err
                     | Inr repl \<Rightarrow> Inr (repl @ rest))))))"

text \<open>The loop writes one line after the other to the temporary file \<open>f\<close>.\<close>

fun write_lines :: "env \<Rightarrow> ResolvedImage \<Rightarrow> bytes list \<Rightarrow> bytes \<Rightarrow> error + bytes" where
  "write_lines e r [] f = Inr f"
| "write_lines e r (line # ls) f =
    (case rewrite_line e r line of
       Inl err \<Rightarrow> Inl err
     | Inr line' \<Rightarrow> write_lines e r ls (f @ line'))"

definition write_dockerfile :: "env \<Rightarrow> ResolvedImage \<Rightarrow> error + bytes" where
  "write_dockerfile e r =
    (case file_contents e (path_join (path (image r)) ''Dockerfile'') of
       None \<Rightarrow> Inl (OSError (path_join (path (image r)) ''Dockerfile''))
     | Some contents \<Rightarrow> write_lines e r (split_lines contents) [])"

subsection \<open>Running the pre-image actions, \<open>ResolvedImage.build\<close> (lines 624-652)\<close>

text \<open>The dictionary \<open>prep\<close> from the class of a pre-image action to what its
  \<open>prepare_batch\<close> returned: \<open>None\<close> for \<open>Copy\<close>, the captured output for \<open>CargoBuild\<close>. An
  absent key is \<open>None\<close> here.\<close>

record prep =
  prep_Copy :: "unit option"
  prep_CargoBuild :: "string option"

text \<open>\<open>pre_image.run(prep[type(pre_image)])\<close>: \<open>Copy.run\<close> (lines 223-228) copies files;
  \<open>CargoBuild.run\<close> (lines 460-462) calls \<open>CargoBuild.build\<close> (lines 388-458), which copies and
  strips the binaries, extracts build-script output and then sets \<open>self.acquired = True\<close> on
  the action. A failure of the copies and tools is reported as \<open>OSError\<close>.\<close>

fun run_pre_image :: "env \<Rightarrow> prep \<Rightarrow> PreImage \<Rightarrow> error + PreImage" where
  "run_pre_image e pr (Copy r p src dst m) =
    (case prep_Copy pr of
       None \<Rightarrow> Inl (KeyError ''Copy'')
     | Some u \<Rightarrow>
        if pre_image_effects_ok e (Copy r p src dst m) then Inr (Copy r p src dst m)
        else Inl (OSError p))"
| "run_pre_image e pr (CargoBuild r p bs xs st ex a) =
    (case prep_CargoBuild pr of
       None \<Rightarrow> Inl (KeyError ''CargoBuild'')
     | Some json \<Rightarrow>
        if pre_image_effects_ok e (CargoBuild r p bs xs st ex a)
        then Inr (CargoBuild r p bs xs st ex True)
        else Inl (OSError p))"

fun run_pre_images :: "env \<Rightarrow> prep \<Rightarrow> PreImage list \<Rightarrow> error + PreImage list" where
  "run_pre_images e pr [] = Inr []"
| "run_pre_images e pr (p # ps) =
    (case run_pre_image e pr p of
       Inl err \<Rightarrow> Inl err
     | Inr p' \<Rightarrow>
        (case run_pre_images e pr ps of
           Inl err \<Rightarrow> Inl err
         | Inr ps' \<Rightarrow> Inr (p' # ps')))"

text \<open>\<open>{**d, k: v}\<close> on a dictionary in insertion order.\<close>

fun dict_update :: "string \<Rightarrow> string \<Rightarrow> (string \<times> string) list \<Rightarrow> (string \<times> string) list" where
  "dict_update k v [] = [(k, v)]"
| "dict_update k v ((k', v') # kvs) =
    (if k' = k then (k, v) # kvs else (k', v') # dict_update k v kvs)"

fun set_pre_images :: "PreImage list \<Rightarrow> ResolvedImage \<Rightarrow> ResolvedImage" where
  "set_pre_images ps (ResolvedImage img acq deps) =
     ResolvedImage (img\<lparr>pre_images := ps\<rparr>) acq deps"

definition build :: "env \<Rightarrow> prep \<Rightarrow> ResolvedImage \<Rightarrow> event list \<Rightarrow> error + ResolvedImage \<times> event list"
  where
  "build e pr r tr =
    (case spec e r of
       Inl err \<Rightarrow> Inl err
     | Inr s \<Rightarrow>
    (case runv e [''git'', ''clean'', ''-ffdX'', path (image r)] None tr of
       Inl err \<Rightarrow> Inl err
     | Inr tr \<Rightarrow>
    (case run_pre_images e pr (pre_images (image r)) of
       Inl err \<Rightarrow> Inl err
     | Inr ps \<Rightarrow>
        (let r = set_pre_images ps r;
             build_args =
               dict_update ''ARCH_GO'' (go_str e (arch (rd (image r))))
                 (dict_update ''ARCH_GCC'' (arch (rd (image r))) (build_args (image r)))
         in case write_dockerfile e r of
              Inl err \<Rightarrow> Inl err
            | Inr f \<Rightarrow>
               (case spec e r of
                  Inl err \<Rightarrow> Inl err
                | Inr s \<Rightarrow>
                   (let cmd = [''docker'', ''build'', ''-f'', ''-'']
                          @ map (\<lambda>(k, v). ''--build-arg='' @ k @ ''='' @ v) build_args
                          @ [''-t'', s,
                             ''--platform=linux/'' @ go_str e (arch (rd (image r))),
                             path (image r)]
                    in case runv e cmd (Some f) tr of
                         Inl err \<Rightarrow> Inl err
                       | Inr tr \<Rightarrow> Inr (r, tr)))))))"

subsection \<open>\<open>try_pull\<close> and \<open>is_published_if_necessary\<close> (lines 654-673)\<close>

definition try_pull ::
  "env \<Rightarrow> ResolvedImage \<Rightarrow> nat \<Rightarrow> event list \<Rightarrow> error + bool \<times> ResolvedImage \<times> event list"
  where
  "try_pull e r max_duration tr =
    (case spec e r of
       Inl err \<Rightarrow> Inl err
     | Inr s \<Rightarrow>
        if \<not> acquired r then
          (case pull_with_retries e s max_duration of
             Inl err \<Rightarrow> Inl err
           | Inr u \<Rightarrow>
              (let r = set_acquired True r
               in Inr (acquired r, r, tr @ [PullWithRetries s max_duration])))
        else Inr (acquired r, r, tr))"

definition is_published_if_necessary :: "env \<Rightarrow> ResolvedImage \<Rightarrow> error + bool" where
  "is_published_if_necessary e r =
    (if publish (image r) then
       (case spec e r of
          Inl err \<Rightarrow> Inl err
        | Inr s \<Rightarrow> if is_docker_image_pushed e s then Inr True else Inr False)
     else Inr False)"

subsection \<open>\<open>DependencySet._prepare_batch\<close>, \<open>acquire\<close>, \<open>ensure\<close> and \<open>check\<close> (lines 801-872)\<close>

fun is_CargoBuild :: "PreImage \<Rightarrow> bool" where
  "is_CargoBuild (CargoBuild r p bs xs st ex a) = True"
| "is_CargoBuild (Copy r p src dst m) = False"

text \<open>\<open>CargoBuild.prepare_batch\<close> (lines 350-386) for a non-empty list of actions.\<close>

definition CargoBuild_prepare_batch ::
  "env \<Rightarrow> PreImage list \<Rightarrow> event list \<Rightarrow> error + string \<times> event list" where
  "CargoBuild_prepare_batch e cargo_builds tr =
    (if cargo_builds = [] then Inr ('''', tr)
     else
       (let r = pi_rd (hd cargo_builds);
            bs = \<Union> ((\<lambda>b. set (bins b)) ` set cargo_builds);
            xs = \<Union> ((\<lambda>b. set (examples b)) ` set cargo_builds);
            cargo_build = generate_cargo_build_command e r (set_iter e bs) (set_iter e xs)
        in case runv e cargo_build None tr of
             Inl err \<Rightarrow> Inl err
           | Inr tr \<Rightarrow>
              (case capture_output e (cargo_build @ [''--message-format=json'']) of
                 Inl err \<Rightarrow> Inl err
               | Inr json_output \<Rightarrow>
                   Inr (json_output, tr @ [Captured (cargo_build @ [''--message-format=json''])]))))"

definition prepare_batch :: "env \<Rightarrow> ResolvedImage list \<Rightarrow> event list \<Rightarrow> error + prep \<times> event list"
  where
  "prepare_batch e imgs tr =
    (let pre = concat (map (\<lambda>i. pre_images (image i)) imgs);
         copies = filter (\<lambda>p. \<not> is_CargoBuild p) pre;
         cargos = filter is_CargoBuild pre;
         pc = (if copies = [] then None else Some ())
     in if cargos = [] then Inr (\<lparr>prep_Copy = pc, prep_CargoBuild = None\<rparr>, tr)
        else
          (case CargoBuild_prepare_batch e cargos tr of
             Inl err \<Rightarrow> Inl err
           | Inr (json_output, tr) \<Rightarrow>
               Inr (\<lparr>prep_Copy = pc, prep_CargoBuild = Some json_output\<rparr>, tr)))"

text \<open>An object of the set is its position in the list. The comprehension of \<open>acquire\<close>
  calls \<open>try_pull\<close> on each image in order and collects those for which it returned false;
  \<open>i\<close> is the position of the first image of the list in the set.\<close>

fun pull_all ::
  "env \<Rightarrow> nat \<Rightarrow> ResolvedImage list \<Rightarrow> nat \<Rightarrow> event list
    \<Rightarrow> error + DependencySet \<times> nat list \<times> event list" where
  "pull_all e max_duration [] i tr = Inr ([], [], tr)"
| "pull_all e max_duration (dep # deps) i tr =
    (case try_pull e dep max_duration tr of
       Inl err \<Rightarrow> Inl err
     | Inr (found, dep, tr) \<Rightarrow>
        (case pull_all e max_duration deps (Suc i) tr of
           Inl err \<Rightarrow> Inl err
         | Inr (deps, deps_to_build, tr) \<Rightarrow>
             Inr (dep # deps, (if \<not> found then [i] else []) @ deps_to_build, tr)))"

fun build_all ::
  "env \<Rightarrow> prep \<Rightarrow> nat list \<Rightarrow> DependencySet \<Rightarrow> event list \<Rightarrow> error + DependencySet \<times> event list"
  where
  "build_all e pr [] ds tr = Inr (ds, tr)"
| "build_all e pr (i # deps_to_build) ds tr =
    (case build e pr (ds ! i) tr of
       Inl err \<Rightarrow> Inl err
     | Inr (dep, tr) \<Rightarrow> build_all e pr deps_to_build (ds[i := dep]) tr)"

definition acquire ::
  "env \<Rightarrow> DependencySet \<Rightarrow> nat option \<Rightarrow> event list \<Rightarrow> error + DependencySet \<times> event list" where
  "acquire e ds max_duration tr =
    (let max_duration =
           (case max_duration of
              None \<Rightarrow> if ci e then 60 else 0
            | Some d \<Rightarrow> if d = 0 then (if ci e then 60 else 0) else d)
     in case pull_all e max_duration ds 0 tr of
          Inl err \<Rightarrow> Inl err
        | Inr (ds, deps_to_build, tr) \<Rightarrow>
           (case prepare_batch e (map (\<lambda>i. ds ! i) deps_to_build) tr of
              Inl err \<Rightarrow> Inl err
            | Inr (pr, tr) \<Rightarrow> build_all e pr deps_to_build ds tr))"

text \<open>\<open>ensure\<close>: the images that are not published, the loop that builds them and calls
  \<open>post_build\<close>, and the pushes, all started before the first is waited for.\<close>

fun unpublished :: "env \<Rightarrow> ResolvedImage list \<Rightarrow> nat \<Rightarrow> error + nat list" where
  "unpublished e [] i = Inr []"
| "unpublished e (dep # deps) i =
    (case is_published_if_necessary e dep of
       Inl err \<Rightarrow> Inl err
     | Inr b \<Rightarrow>
        (case unpublished e deps (Suc i) of
           Inl err \<Rightarrow> Inl err
         | Inr is \<Rightarrow> Inr ((if \<not> b then [i] else []) @ is)))"

fun ensure_build ::
  "env \<Rightarrow> prep \<Rightarrow> (ResolvedImage \<Rightarrow> error + ResolvedImage) option \<Rightarrow> nat list \<Rightarrow> DependencySet
    \<Rightarrow> string list \<Rightarrow> event list \<Rightarrow> error + DependencySet \<times> string list \<times> event list" where
  "ensure_build e pr post_build [] ds images_to_push tr = Inr (ds, images_to_push, tr)"
| "ensure_build e pr post_build (i # deps_to_build) ds images_to_push tr =
    (case build e pr (ds ! i) tr of
       Inl err \<Rightarrow> Inl err
     | Inr (dep, tr) \<Rightarrow>
        (case (case post_build of None \<Rightarrow> Inr dep | Some cb \<Rightarrow> cb dep) of
           Inl err \<Rightarrow> Inl err
         | Inr dep \<Rightarrow>
            if publish (image dep) then
              (case spec e dep of
                 Inl err \<Rightarrow> Inl err
               | Inr s \<Rightarrow>
                  ensure_build e pr post_build deps_to_build (ds[i := dep])
                    (images_to_push @ [s]) tr)
            else ensure_build e pr post_build deps_to_build (ds[i := dep]) images_to_push tr))"

definition push_command :: "env \<Rightarrow> string \<Rightarrow> string" where
  "push_command e img = ''docker push '' @ shlex_quote e img @ '' | cat''"

fun wait_all :: "env \<Rightarrow> string list \<Rightarrow> error + unit" where
  "wait_all e [] = Inr ()"
| "wait_all e (c # cs) =
    (if popen_returncode e c \<noteq> 0 then Inl (CalledProcessError [c]) else wait_all e cs)"

definition ensure ::
  "env \<Rightarrow> DependencySet \<Rightarrow> (ResolvedImage \<Rightarrow> error + ResolvedImage) option \<Rightarrow> event list
    \<Rightarrow> error + DependencySet \<times> event list" where
  "ensure e ds post_build tr =
    (case unpublished e ds 0 of
       Inl err \<Rightarrow> Inl err
     | Inr deps_to_build \<Rightarrow>
    (case prepare_batch e (map (\<lambda>i. ds ! i) deps_to_build) tr of
       Inl err \<Rightarrow> Inl err
     | Inr (pr, tr) \<Rightarrow>
    (case ensure_build e pr post_build deps_to_build ds [] tr of
       Inl err \<Rightarrow> Inl err
     | Inr (ds, images_to_push, tr) \<Rightarrow>
        (let pushes = map (push_command e) images_to_push;
             tr = tr @ map Popen pushes
         in case wait_all e pushes of
              Inl err \<Rightarrow> Inl err
            | Inr u \<Rightarrow> Inr (ds, tr)))))"

fun check_all :: "env \<Rightarrow> DependencySet \<Rightarrow> error + bool" where
  "check_all e [] = Inr True"
| "check_all e (dep # ds) =
    (case is_published_if_necessary e dep of
       Inl err \<Rightarrow> Inl err
     | Inr b \<Rightarrow> if b then check_all e ds else Inr False)"

section \<open>The specification's notions and notions of the proofs\<close>

text \<open>The cap of the specification: the ceiling of \<open>2 * n / 3\<close>.\<close>

definition spec_jobs_cap :: "nat \<Rightarrow> nat" where
  "spec_jobs_cap n = (2 * n + 2) div 3"

text \<open>The name constraint of the specification, \<open>^[A-Za-z0-9-]+$\<close>: the name is one or more
  letters, digits and hyphens.\<close>

definition spec_name_matches :: "string \<Rightarrow> bool" where
  "spec_name_matches nm = (nm \<noteq> [] \<and> list_all name_char nm)"

text \<open>The canonical algorithm as the specification words it: the entry of a file in \<open>H\<close>,
  the bytes fed to \<open>H\<close>, and the digest of \<open>F\<close>.\<close>

definition spec_simplified_mode :: "bool \<Rightarrow> bool \<Rightarrow> nat" where
  "spec_simplified_mode is_symlink owner_executable =
    (if is_symlink then 40960 else if owner_executable then 33261 else 33188)"

definition big_endian2 :: "nat \<Rightarrow> bytes" where
  "big_endian2 n = [char_of (n div 256), char_of (n mod 256)]"

definition canonical_file_entry :: "env \<Rightarrow> string \<times> nat \<times> bytes \<Rightarrow> bytes" where
  "canonical_file_entry e = (\<lambda>(rel_path, raw_mode, contents).
     big_endian2 (spec_simplified_mode (S_ISLNK raw_mode) (and raw_mode 64 \<noteq> 0))
       @ rel_path @ sha1 e contents @ [CHR 0x00])"

definition canonical_H ::
  "env \<Rightarrow> (string \<times> nat \<times> bytes) list \<Rightarrow> string list \<Rightarrow> string \<Rightarrow> string \<Rightarrow> string \<Rightarrow> bytes"
  where
  "canonical_H e files extras a b c =
     concat (map (canonical_file_entry e) files)
       @ concat (map (\<lambda>x. x @ [CHR 0x00]) extras)
       @ ''arch='' @ a @ ''coverage='' @ b @ ''sanitizer='' @ c"

definition canonical_fingerprint :: "env \<Rightarrow> bytes \<Rightarrow> (string \<times> bytes) list \<Rightarrow> bytes" where
  "canonical_fingerprint e H deps =
     sha1 e (sha1 e H @ concat (map (\<lambda>(nm, fp). nm @ fp @ [CHR 0x00]) deps))"

text \<open>An order is topological when every image comes after all of its dependencies:
  \<open>seen\<close> are the names before the list.\<close>

fun topological_from :: "string set \<Rightarrow> Image list \<Rightarrow> bool" where
  "topological_from seen [] = True"
| "topological_from seen (i # is) =
    (set (depends_on i) \<subseteq> seen \<and> topological_from (insert (name i) seen) is)"

text \<open>The dependency edges of a repository, from a dependency to its dependent, and what
  \<open>Repository.__init__\<close> establishes: every image is stored under its name, and every
  dependency names an image.\<close>

definition dep_edges :: "(string \<times> Image) list \<Rightarrow> (string \<times> string) set" where
  "dep_edges imgs = {(d, n). \<exists>i. map_of imgs n = Some i \<and> d \<in> set (depends_on i)}"

definition repository_valid :: "(string \<times> Image) list \<Rightarrow> bool" where
  "repository_valid imgs =
    (list_all (\<lambda>(n, i). name i = n \<and> list_all (\<lambda>d. map_of imgs d \<noteq> None) (depends_on i)) imgs
     \<and> distinct (map fst imgs))"

text \<open>Notions for the correctness of the resolver: the names resolved so far, the names
  being visited, the invariant of \<open>resolved\<close>, and how one state extends another (by entries
  of rank below \<open>b\<close>, without new names in progress).\<close>

definition res_names :: "resolver_state \<Rightarrow> string set" where
  "res_names st = fst ` set (resolved st)"

definition in_progress :: "resolver_state \<Rightarrow> string set" where
  "in_progress st = visiting st - res_names st"

definition resolver_inv :: "(string \<times> Image) list \<Rightarrow> resolver_state \<Rightarrow> bool" where
  "resolver_inv imgs st =
    (list_all (\<lambda>(k, i). name i = k \<and> map_of imgs k = Some i) (resolved st)
     \<and> distinct (map fst (resolved st))
     \<and> topological_from {} (map snd (resolved st)))"

definition extends :: "(string \<Rightarrow> nat) \<Rightarrow> nat \<Rightarrow> resolver_state \<Rightarrow> resolver_state \<Rightarrow> bool" where
  "extends rk b st st' =
    ((\<exists>new. resolved st' = resolved st @ new \<and> list_all (\<lambda>(k, i). rk k < b) new)
     \<and> in_progress st' \<subseteq> in_progress st)"

text \<open>The specification's reading of \<open>is_published_if_necessary\<close>: true iff \<open>publish\<close> is
  false or the registry has the spec.\<close>

definition spec_is_published :: "env \<Rightarrow> ResolvedImage \<Rightarrow> bool" where
  "spec_is_published e r =
    (publish (image r) = False
     \<or> (case spec e r of Inl err \<Rightarrow> False | Inr s \<Rightarrow> is_docker_image_pushed e s))"

text \<open>Lines as \<open>split_lines\<close> produces them: a line is not empty and has a line feed at most
  at its end, and every line but the last ends with one.\<close>

definition proper_line :: "bytes \<Rightarrow> bool" where
  "proper_line l = (l \<noteq> [] \<and> CHR 0x0A \<notin> set (butlast l))"

fun proper_lines :: "bytes list \<Rightarrow> bool" where
  "proper_lines [] = True"
| "proper_lines [l] = proper_line l"
| "proper_lines (l # l2 # ls) = (proper_line l \<and> last l = CHR 0x0A \<and> proper_lines (l2 # ls))"

section \<open>Concrete inputs\<close>

text \<open>A small environment for evaluating the definitions: the digest is the last twenty
  bytes in reverse order, padded with zeros, every file is a regular non-executable file, the
  workspace and the local Docker daemon are empty, the registry has every image, every
  command and every pull succeeds, and a set is iterated in sorted order.\<close>

definition env0 :: env where
  "env0 = \<lparr>
     sha1 = (\<lambda>bs. take 20 (rev bs @ replicate 20 (CHR 0x00))),
     b32encode = (\<lambda>bs. bs),
     str_sanitizer = sanitizer_value,
     expand_globs = (\<lambda>r specs. specs),
     lstat_mode = (\<lambda>p. Some 33188),
     file_contents = (\<lambda>p. Some p),
     crate_for_bin_name = (\<lambda>b. b),
     crate_for_example_name = (\<lambda>b. b),
     bin_inputs = (\<lambda>b. {}),
     example_inputs = (\<lambda>b. {}),
     rustc_flags_coverage = [],
     rustc_flags_sanitizer = (\<lambda>s. []),
     rustc_flags_sanitizer_cflags = (\<lambda>s. []),
     xcompile_target = (\<lambda>a. a @ ''-unknown-linux-gnu''),
     go_str = (\<lambda>a. a),
     xcompile_cargo = (\<lambda>a c s fl ev. [''cargo'', s]),
     cpu_count = 2,
     set_iter = sorted_list_of_set,
     docker_images = {},
     is_docker_image_pushed = (\<lambda>s. True),
     runv_ok = (\<lambda>c. True),
     pull_with_retries = (\<lambda>s d. Inr ()),
     ci = False,
     capture_output = (\<lambda>c. Inr []),
     pre_image_effects_ok = (\<lambda>p. True),
     popen_returncode = (\<lambda>c. 0),
     shlex_quote = (\<lambda>s. s),
     load_manifest = (\<lambda>p. None),
     decodes = (\<lambda>b. True),
     re_expand_template = (\<lambda>t g. Inr t)
   \<rparr>"

definition rd0 :: RepositoryDetails where
  "rd0 = \<lparr> root = ''/repo'', arch = ''x86_64'', release_mode = True, coverage = False,
           sanitizer = none, image_registry = ''materialize'', image_prefix = '''' \<rparr>"

definition rd_asan :: RepositoryDetails where
  "rd_asan = rd0\<lparr>sanitizer := address\<rparr>"

text \<open>Two images: \<open>a\<close>, with a copy action, depends on \<open>b\<close>.\<close>

definition img_b :: Image where
  "img_b = \<lparr> rd = rd0, path = ''b'', pre_images = [], name = ''b'', publish = False,
      description = None, mainline = True, build_args = [], depends_on = [] \<rparr>"

definition img_a :: Image where
  "img_a = \<lparr> rd = rd0, path = ''a'', pre_images = [Copy rd0 ''a'' ''libs'' ''dst'' ''*.txt''],
      name = ''a'', publish = True, description = None, mainline = True, build_args = [],
      depends_on = [''b''] \<rparr>"

definition r_b :: ResolvedImage where
  "r_b = ResolvedImage img_b False []"

definition r_a :: ResolvedImage where
  "r_a = ResolvedImage img_a False [r_b]"

text \<open>Manifests with an empty name and with an underscore in the name.\<close>

definition manifest_empty_name :: manifest where
  "manifest_empty_name = \<lparr> m_name = Some '''', m_publish = None, m_description = None,
     m_mainline = None, m_pre_image = None, m_build_args = None \<rparr>"

definition manifest_bad_name :: manifest where
  "manifest_bad_name = manifest_empty_name \<lparr> m_name := Some ''my_image'' \<rparr>"

definition env_empty_name :: env where
  "env_empty_name = env0 \<lparr> load_manifest := (\<lambda>p. Some manifest_empty_name),
      file_contents := (\<lambda>p. Some ''FROM scratch'') \<rparr>"

definition env_bad_name :: env where
  "env_bad_name = env0 \<lparr> load_manifest := (\<lambda>p. Some manifest_bad_name) \<rparr>"

text \<open>Images without pre-image actions, the repository of scenario S3 (\<open>a\<close> depends on \<open>b\<close>,
  \<open>b\<close> on \<open>c\<close>, \<open>c\<close> on \<open>a\<close>), and an acyclic repository.\<close>

definition img_named :: "string \<Rightarrow> string list \<Rightarrow> Image" where
  "img_named n ds = \<lparr> rd = rd0, path = n, pre_images = [], name = n, publish = True,
      description = None, mainline = True, build_args = [], depends_on = ds \<rparr>"

definition repo_cycle :: Repository where
  "repo_cycle = \<lparr> repo_rd = rd0,
     images = [(''a'', img_named ''a'' [''b'']), (''b'', img_named ''b'' [''c'']),
               (''c'', img_named ''c'' [''a''])],
     compositions = [] \<rparr>"

definition repo_dag :: Repository where
  "repo_dag = \<lparr> repo_rd = rd0,
     images = [(''a'', img_named ''a'' [''c'', ''b'']), (''b'', img_named ''b'' [''c'']),
               (''c'', img_named ''c'' [])],
     compositions = [] \<rparr>"

text \<open>A state in which \<open>a\<close> and \<open>b\<close> are being visited.\<close>

definition st_visiting_a :: resolver_state where
  "st_visiting_a = \<lparr>resolved = [], visiting = {''a'', ''b''}\<rparr>"

text \<open>An environment in which every pull fails after its retries, the dictionary \<open>prep\<close>
  without keys, and what building \<open>b\<close> runs.\<close>

definition env_pull_fails :: env where
  "env_pull_fails =
     env0 \<lparr> pull_with_retries := (\<lambda>s d. Inl (CalledProcessError [''docker'', ''pull'', s])) \<rparr>"

definition prep_none :: prep where
  "prep_none = \<lparr>prep_Copy = None, prep_CargoBuild = None\<rparr>"

definition build_trace_b :: "event list" where
  "build_trace_b =
    [Runv [''git'', ''clean'', ''-ffdX'', ''b''] None,
     Runv [''docker'', ''build'', ''-f'', ''-'', ''--build-arg=ARCH_GCC=x86_64'',
           ''--build-arg=ARCH_GO=x86_64'', ''-t'',
           ''materialize/b:mzbuild-=Falsesanitizer=none'', ''--platform=linux/x86_64'', ''b'']
       (Some ''b/Dockerfile'')]"

text \<open>An environment in which the Dockerfile of \<open>a\<close> has an \<open>MZFROM\<close> line.\<close>

definition env_dockerfile :: env where
  "env_dockerfile = env0 \<lparr> file_contents :=
     (\<lambda>p. if p = ''a/Dockerfile'' then Some ''MZFROM b AS x\<newline>RUN true\<newline>'' else Some p) \<rparr>"

section \<open>Theorems\<close>

subsection \<open>Basic facts\<close>

lemma env0_simps [simp]:
  "sha1 env0 = (\<lambda>bs. take 20 (rev bs @ replicate 20 (CHR 0x00)))"
  "b32encode env0 = (\<lambda>bs. bs)"
  "str_sanitizer env0 = sanitizer_value"
  "expand_globs env0 = (\<lambda>r specs. specs)"
  "lstat_mode env0 = (\<lambda>p. Some 33188)"
  "file_contents env0 = (\<lambda>p. Some p)"
  "crate_for_bin_name env0 = (\<lambda>b. b)"
  "crate_for_example_name env0 = (\<lambda>b. b)"
  "bin_inputs env0 = (\<lambda>b. {})"
  "example_inputs env0 = (\<lambda>b. {})"
  "rustc_flags_coverage env0 = []"
  "rustc_flags_sanitizer env0 = (\<lambda>s. [])"
  "rustc_flags_sanitizer_cflags env0 = (\<lambda>s. [])"
  "xcompile_target env0 = (\<lambda>a. a @ ''-unknown-linux-gnu'')"
  "go_str env0 = (\<lambda>a. a)"
  "xcompile_cargo env0 = (\<lambda>a c s fl ev. [''cargo'', s])"
  "cpu_count env0 = 2"
  "set_iter env0 = sorted_list_of_set"
  "docker_images env0 = {}"
  "is_docker_image_pushed env0 = (\<lambda>s. True)"
  "runv_ok env0 = (\<lambda>c. True)"
  "pull_with_retries env0 = (\<lambda>s d. Inr ())"
  "ci env0 = False"
  "capture_output env0 = (\<lambda>c. Inr [])"
  "pre_image_effects_ok env0 = (\<lambda>p. True)"
  "popen_returncode env0 = (\<lambda>c. 0)"
  "shlex_quote env0 = (\<lambda>s. s)"
  "load_manifest env0 = (\<lambda>p. None)"
  "decodes env0 = (\<lambda>b. True)"
  "re_expand_template env0 = (\<lambda>t g. Inr t)"
  by (simp_all add: env0_def)

lemma image_set_acquired [simp]: "image (set_acquired b r) = image r"
  by (cases r) simp

lemma image_ResolvedImage_init [simp]: "image (ResolvedImage_init d rs) = d"
  by (simp add: ResolvedImage_init_def)

lemma acquired_set_acquired [simp]: "acquired (set_acquired b r) = b"
  by (cases r) simp

lemma dependencies_set_acquired [simp]: "dependencies (set_acquired b r) = dependencies r"
  by (cases r) simp

lemma fingerprint_set_acquired [simp]: "fingerprint e (set_acquired b r) = fingerprint e r"
  by (cases r) simp

lemma spec_set_acquired [simp]: "spec e (set_acquired b r) = spec e r"
  by (simp add: spec_def cong: sum.case_cong)

lemma selectors_set_pre_images [simp]:
  "acquired (set_pre_images ps r) = acquired r"
  "dependencies (set_pre_images ps r) = dependencies r"
  "image (set_pre_images ps r) = (image r)\<lparr>pre_images := ps\<rparr>"
  by (cases r; simp)+

lemma selectors_r [simp]:
  "image r_a = img_a" "dependencies r_a = [r_b]" "acquired r_a = False"
  "image r_b = img_b" "dependencies r_b = []" "acquired r_b = False"
  by (simp_all add: r_a_def r_b_def)

subsection \<open>Extra fingerprint material of a cargo pre-image\<close>

text \<open>
  C3. For a cargo-build pre-image, \<open>extra()\<close> should be the sorted, comma-joined list of
  the axis tags present, so \<open>"release"\<close> in release mode without coverage and sanitizer.
  The code extends the list \<open>flags\<close> with the string itself (\<open>flags += "release"\<close>), which
  appends its seven characters: the sorted characters are joined, not the tags.
\<close>

theorem extra_release_only:
  "extra (CargoBuild rd0 ''/repo/src/a'' [''a''] [] True [] False) = ''a,e,e,e,l,r,s''"
  by (simp add: CargoPreImage_extra_def chars_def rd0_def)

subsection \<open>The cargo build command under a sanitizer\<close>

lemma py_round_div_two_thirds: "py_round_div (n * 2) 3 = (2 * n + 1) div 3"
proof -
  have "(n * 2) mod 3 = 0 \<or> (n * 2) mod 3 = 1 \<or> (n * 2) mod 3 = 2" by arith
  then show ?thesis
    unfolding py_round_div_def Let_def by (elim disjE) (simp_all, arith+)
qed

lemmas cargo_command_defs =
  generate_cargo_build_command_def rd_asan_def rd0_def Let_def cargo_rustflags_def
  cargo_extra_env_def cargo_cflags_def py_round_div_def str_nat.simps digit_char_def

text \<open>
  C5 (as stated, refuted). With two CPUs and the address sanitizer the value passed to
  \<open>--jobs\<close> is \<open>round(4 / 3) = 1\<close>, not the ceiling \<open>2\<close>.
\<close>

theorem sanitizer_jobs_cap_counterexample:
  "last (generate_cargo_build_command env0 rd_asan [''a''] [])
     \<noteq> str_nat (spec_jobs_cap (cpu_count env0))"
  by (simp add: cargo_command_defs spec_jobs_cap_def)

text \<open>
  C5 (amended). When a sanitizer other than none is enabled, the synthesized command ends
  with \<open>--no-default-features\<close>, \<open>--jobs\<close> and the decimal rendering of \<open>2 * N / 3\<close> rounded
  to the nearest integer, which is \<open>(2 * N + 1) div 3\<close> for every CPU count \<open>N\<close>.
\<close>

theorem sanitizer_jobs_rounded:
  assumes "sanitizer r \<noteq> none"
  shows "\<exists>pre. generate_cargo_build_command e r bs xs =
           pre @ [''--no-default-features'', ''--jobs'', str_nat ((2 * cpu_count e + 1) div 3)]"
  using assms
  by (simp add: generate_cargo_build_command_def Let_def py_round_div_two_thirds
      split: prod.splits)

theorem sanitizer_jobs_rounded_witness:
  "generate_cargo_build_command env0 rd_asan [''a''] [] =
     [''cargo'', ''build'', ''--bin'', ''a'', ''--package=a'', ''--release'',
      ''--no-default-features'', ''--jobs'', ''1'']"
  using sanitizer_jobs_rounded [of rd_asan env0 "[''a'']" "[]"]
  by (simp add: cargo_command_defs)

subsection \<open>The fingerprint\<close>

lemma to_bytes2_big_simplified:
  "to_bytes2_big (simplified_file_mode m) =
     Inr (big_endian2 (spec_simplified_mode (S_ISLNK m) (and m 64 \<noteq> 0)))"
  by (simp add: to_bytes2_big_def simplified_file_mode_def spec_simplified_mode_def
      big_endian2_def S_IXUSR_def)

lemma feed_files_canonical:
  assumes "map (\<lambda>p. lstat_mode e (path_join rt p)) paths = map Some modes"
    and "map (\<lambda>p. file_contents e (path_join rt p)) paths = map Some contents"
  shows "feed_files e rt paths h =
     Inr (h @ concat (map (canonical_file_entry e) (zip paths (zip modes contents))))"
  using assms
proof (induction paths arbitrary: h modes contents)
  case Nil
  then show ?case by simp
next
  case (Cons p ps)
  from Cons.prems obtain m ms c cs where
    ms: "modes = m # ms" and cs: "contents = c # cs" by (cases modes; cases contents) auto
  with Cons.prems have
    m: "lstat_mode e (path_join rt p) = Some m" and
    c: "file_contents e (path_join rt p) = Some c" and
    rest: "map (\<lambda>p. lstat_mode e (path_join rt p)) ps = map Some ms"
      "map (\<lambda>p. file_contents e (path_join rt p)) ps = map Some cs"
    by auto
  show ?case
    by (simp add: ms cs m c to_bytes2_big_simplified Cons.IH [OF rest]
        canonical_file_entry_def)
qed

lemma feed_extras_canonical:
  "feed_extras ps h = h @ concat (map (\<lambda>x. x @ [CHR 0x00]) (map extra ps))"
  by (induction ps arbitrary: h) simp_all

lemma feed_deps_canonical:
  "length nms = length fps \<Longrightarrow>
   feed_deps (zip nms (map Inr fps)) h =
     Inr (h @ concat (map (\<lambda>(nm, fp). nm @ fp @ [CHR 0x00]) (zip nms fps)))"
proof (induction nms arbitrary: fps h)
  case Nil
  then show ?case by simp
next
  case (Cons n ns)
  then obtain f fs where "fps = f # fs" by (cases fps) auto
  with Cons show ?case by simp
qed

lemma map_pair_zip: "map (\<lambda>x. (f x, g x)) xs = zip (map f xs) (map g xs)"
  by (induction xs) simp_all

text \<open>
  C1. \<open>fingerprint()\<close> implements the canonical algorithm. When the inputs of the image are
  known to git, the input paths (sorted lexicographically) have the raw modes \<open>modes\<close> and
  the contents \<open>contents\<close>, and the dependencies (sorted by name) have the fingerprints
  \<open>fps\<close>, the result is the digest of \<open>F\<close>, fed the digest of \<open>H\<close> and then name, fingerprint
  and a zero byte for each dependency, where \<open>H\<close> is fed, for each path, the simplified mode
  as two big-endian bytes, the path, the digest of the contents and a zero byte, then for
  each pre-image action its \<open>extra()\<close> and a zero byte, then \<open>arch=\<close>, \<open>coverage=\<close> and
  \<open>sanitizer=\<close> with their values.
\<close>

theorem fingerprint_canonical:
  assumes inp: "inputs e r False = Inr inp"
    and paths: "paths = sorted_list_of_set (expand_globs e (root (rd (image r))) inp)"
    and modes: "map (\<lambda>p. lstat_mode e (path_join (root (rd (image r))) p)) paths = map Some modes"
    and contents:
      "map (\<lambda>p. file_contents e (path_join (root (rd (image r))) p)) paths = map Some contents"
    and deps: "deps = sort_key (\<lambda>d. name (image d)) (dependencies r)"
    and fps: "map (fingerprint e) deps = map Inr fps"
  shows "fingerprint e r =
    Inr (canonical_fingerprint e
      (canonical_H e (zip paths (zip modes contents)) (map extra (pre_images (image r)))
         (arch (rd (image r))) (str_bool (coverage (rd (image r))))
         (str_sanitizer e (sanitizer (rd (image r)))))
      (zip (map (\<lambda>d. name (image d)) deps) fps))"
proof (cases r)
  case (ResolvedImage img acq ds)
  have len: "length (map (\<lambda>d. name (image d)) deps) = length fps"
    using fps by (metis length_map)
  have m: "map (\<lambda>dep. (name (image dep), fingerprint e dep)) deps =
      zip (map (\<lambda>d. name (image d)) deps) (map Inr fps)"
    using fps [symmetric] by (simp add: map_pair_zip)
  show ?thesis
    using inp
    by (simp add: ResolvedImage Let_def feed_extras_canonical
        feed_files_canonical [OF modes [unfolded ResolvedImage paths, simplified]
          contents [unfolded ResolvedImage paths, simplified]]
        deps [unfolded ResolvedImage, simplified, symmetric] m
        feed_deps_canonical [OF len] canonical_fingerprint_def canonical_H_def
        paths [unfolded ResolvedImage, simplified]
        del: inputs.simps)
qed

lemma sorted_list_of_set_two:
  "sorted_list_of_set {''a/**'', ''*.txt''} = [''*.txt'', ''a/**'']"
  by code_simp

lemma simplified_file_mode_regular: "simplified_file_mode 33188 = 33188"
  by (simp add: simplified_file_mode_def S_ISLNK_def S_IXUSR_def)

lemma to_bytes2_big_regular: "to_bytes2_big 33188 = Inr [CHR 0x81, CHR 0xA4]"
  by (simp add: to_bytes2_big_def char_of_def bit_Suc_0_iff)

lemmas witness_defs = r_a_def r_b_def img_a_def img_b_def rd0_def path_join_def str_bool_def
  simplified_file_mode_regular to_bytes2_big_regular

theorem fingerprint_canonical_witness:
  "fingerprint env0 r_a =
     Inr (canonical_fingerprint env0
       (canonical_H env0
          [(''*.txt'', 33188, ''/repo/*.txt''), (''a/**'', 33188, ''/repo/a/**'')]
          [[]] ''x86_64'' ''False'' ''none'')
       [(''b'', ''=Falsesanitizer=none'')])"
proof -
  have inp: "inputs env0 r_a False = Inr {''a/**'', ''*.txt''}"
    by (auto simp: witness_defs)
  have paths: "sorted_list_of_set (expand_globs env0 (root (rd (image r_a))) {''a/**'', ''*.txt''})
      = [''*.txt'', ''a/**'']"
    by (simp add: sorted_list_of_set_two)
  have fb: "fingerprint env0 r_b = Inr ''=Falsesanitizer=none''"
    by (simp add: witness_defs)
  have sel: "image r_a = img_a" "dependencies r_a = [r_b]" "image r_b = img_b"
    by (simp_all add: r_a_def r_b_def)
  show ?thesis
    using fingerprint_canonical [of env0 r_a "{''a/**'', ''*.txt''}" "[''*.txt'', ''a/**'']"
        "[33188, 33188]" "[''/repo/*.txt'', ''/repo/a/**'']" "[r_b]"
        "[''=Falsesanitizer=none'']"]
      inp paths fb
    by (simp add: sel img_a_def img_b_def rd0_def path_join_def str_bool_def)
qed

subsection \<open>The name of an image\<close>

text \<open>
  C9 (as stated, refuted). A manifest whose name is the empty string is accepted by
  \<open>Image.__init__\<close>, and the empty name does not match \<open>^[A-Za-z0-9-]+$\<close>.
\<close>

theorem image_empty_name_counterexample:
  "Image_init env_empty_name rd0 ''/repo/img'' =
     Inr \<lparr> rd = rd0, path = ''/repo/img'', pre_images = [], name = '''', publish = True,
           description = None, mainline = True, build_args = [], depends_on = [] \<rparr>
   \<and> \<not> spec_name_matches ''''"
  by (simp add: Image_init_def env_empty_name_def manifest_empty_name_def pop_default_def
      mzfrom_match_def spec_name_matches_def)

text \<open>
  C9 (amended). Every \<open>Image\<close> successfully constructed has a name made of letters, digits
  and hyphens only (possibly none); for every manifest whose name contains another
  character the construction fails, and with the \<open>ValueError\<close> naming the invalid character
  when the pre-image entries before it are accepted.
\<close>

theorem image_name_characters:
  "(Image_init e r p = Inr img \<longrightarrow> list_all name_char (name img)) \<and>
   (load_manifest e (path_join p ''mzbuild.yml'') = Some data \<and> m_name data = Some nm \<and>
      \<not> list_all name_char nm \<longrightarrow>
      (\<exists>err. Image_init e r p = Inl err) \<and>
      (\<forall>pis. make_pre_images r p (pop_default [] (m_pre_image data)) [] = Inr pis \<longrightarrow>
         Image_init e r p = Inl (ValueError (''mzbuild image name '' @ nm
            @ '' contains invalid character; only alphanumerics and hyphens allowed''))))"
  by (auto simp: Image_init_def split: option.splits sum.splits if_splits)

theorem image_name_characters_witness:
  "Image_init env_empty_name rd0 ''/repo/img'' =
     Inr \<lparr> rd = rd0, path = ''/repo/img'', pre_images = [], name = '''', publish = True,
           description = None, mainline = True, build_args = [], depends_on = [] \<rparr>
   \<and> list_all name_char ''''
   \<and> load_manifest env_bad_name (path_join ''/repo/img'' ''mzbuild.yml'') = Some manifest_bad_name
   \<and> m_name manifest_bad_name = Some ''my_image''
   \<and> \<not> list_all name_char ''my_image''
   \<and> make_pre_images rd0 ''/repo/img'' (pop_default [] (m_pre_image manifest_bad_name)) []
       = Inr []
   \<and> Image_init env_bad_name rd0 ''/repo/img'' =
       Inl (ValueError (''mzbuild image name my_image contains invalid character; ''
         @ ''only alphanumerics and hyphens allowed''))"
  using image_name_characters [of env_bad_name rd0 "''/repo/img''" undefined manifest_bad_name
      "''my_image''"]
    image_name_characters [of env_empty_name rd0 "''/repo/img''"]
  by (simp add: Image_init_def env_empty_name_def manifest_empty_name_def pop_default_def
      mzfrom_match_def env_bad_name_def manifest_bad_name_def name_char_def)


subsection \<open>The resolver\<close>

text \<open>
  C6. In the repository where \<open>a\<close> depends on \<open>b\<close>, \<open>b\<close> on \<open>c\<close> and \<open>c\<close> on \<open>a\<close>, resolving
  \<open>{a}\<close> raises the circular-dependency error with the path \<open>a -> b -> c -> a\<close>, in every
  environment and for every bound of at least four on the depth of the recursion; and in
  general, entering a node that is being visited (and not yet resolved) fails with the
  current path extended by the name of the node.
\<close>

theorem circular_dependency_reported:
  "resolve_dependencies (Suc (Suc (Suc (Suc n)))) e repo_cycle [img_named ''a'' [''b'']] =
     Some (Inl (ValueError (''circular dependency in mzbuild: ''
       @ join '' -> '' [''a'', ''b'', ''c'', ''a''])))
   \<and> (name img \<in> visiting st \<and> name img \<notin> fst ` set (resolved st) \<longrightarrow>
        visit (Suc k) imgs st img pth =
          Some (Inl (ValueError (''circular dependency in mzbuild: ''
            @ join '' -> '' (pth @ [name img])))))"
  by (simp add: resolve_dependencies_def repo_cycle_def img_named_def)

theorem circular_dependency_reported_witness:
  "name (img_named ''a'' [''b'']) \<in> visiting st_visiting_a
   \<and> name (img_named ''a'' [''b'']) \<notin> fst ` set (resolved st_visiting_a)
   \<and> visit (Suc 0) [] st_visiting_a (img_named ''a'' [''b'']) [''a'', ''b''] =
       Some (Inl (ValueError ''circular dependency in mzbuild: a -> b -> a''))
   \<and> resolve_dependencies 4 env0 repo_cycle [img_named ''a'' [''b'']] =
       Some (Inl (ValueError ''circular dependency in mzbuild: a -> b -> c -> a''))"
  using circular_dependency_reported [of 0 env0 "img_named ''a'' [''b'']" st_visiting_a 0 "[]"
      "[''a'', ''b'']"]
  by (simp add: st_visiting_a_def img_named_def numeral_eq_Suc)

lemma topological_from_append:
  "topological_from seen (xs @ [i]) \<longleftrightarrow>
     topological_from seen xs \<and> set (depends_on i) \<subseteq> seen \<union> name ` set xs"
  by (induction xs arbitrary: seen) auto

lemma od_set_fresh: "k \<notin> fst ` set kvs \<Longrightarrow> od_set k v kvs = kvs @ [(k, v)]"
  by (induction kvs) auto

lemma keyed_names:
  "list_all (\<lambda>(k, i). name i = k \<and> P k i) kvs \<Longrightarrow> (\<lambda>x. name (snd x)) ` set kvs = fst ` set kvs"
  by (induction kvs) auto

lemma extends_refl: "extends rk b st st"
  by (simp add: extends_def)

lemma extends_trans:
  "extends rk b st st1 \<Longrightarrow> extends rk b st1 st2 \<Longrightarrow> extends rk b st st2"
  unfolding extends_def by (auto simp: list_all_iff)

lemma extends_mono: "extends rk a st st' \<Longrightarrow> a \<le> b \<Longrightarrow> extends rk b st st'"
  unfolding extends_def by (fastforce simp: list_all_iff)

lemma extends_names: "extends rk b st st' \<Longrightarrow> res_names st \<subseteq> res_names st'"
  unfolding extends_def res_names_def by auto

lemma extends_new_rank:
  "extends rk b st st' \<Longrightarrow> k \<in> res_names st' \<Longrightarrow> k \<notin> res_names st \<Longrightarrow> rk k < b"
  unfolding extends_def res_names_def by (fastforce simp: list_all_iff)

lemma visit_deps_ok:
  assumes IH: "\<And>st img pth. resolver_inv imgs st \<Longrightarrow> map_of imgs (name img) = Some img \<Longrightarrow>
      rk (name img) < n \<Longrightarrow> (\<forall>x\<in>in_progress st. rk (name img) < rk x) \<Longrightarrow>
      \<exists>st'. visit n imgs st img pth = Some (Inr st') \<and> resolver_inv imgs st' \<and>
        extends rk (Suc (rk (name img))) st st' \<and> name img \<in> res_names st'"
  shows "resolver_inv imgs st \<Longrightarrow>
    (\<forall>d\<in>set ds. \<exists>i. map_of imgs d = Some i \<and> name i = d \<and> rk d < b) \<Longrightarrow> b \<le> n \<Longrightarrow>
    (\<forall>x\<in>in_progress st. b \<le> rk x) \<Longrightarrow>
    \<exists>st'. visit_deps n imgs st ds pth = Some (Inr st') \<and> resolver_inv imgs st' \<and>
      extends rk b st st' \<and> set ds \<subseteq> res_names st'"
proof (induction ds arbitrary: st)
  case Nil
  then show ?case by (simp add: extends_refl)
next
  case (Cons d ds)
  from Cons.prems(2) obtain i where i: "map_of imgs d = Some i" "name i = d" "rk d < b"
    by auto
  have "\<forall>x\<in>in_progress st. rk (name i) < rk x"
    using Cons.prems(4) i by fastforce
  with IH [of st i pth] Cons.prems i obtain st1 where
    st1: "visit n imgs st i pth = Some (Inr st1)" "resolver_inv imgs st1"
      "extends rk (Suc (rk d)) st st1" "d \<in> res_names st1"
    by auto
  have e1: "extends rk b st st1"
    using st1(3) i(3) by (auto intro: extends_mono)
  have "\<forall>x\<in>in_progress st1. b \<le> rk x"
    using e1 Cons.prems(4) unfolding extends_def by auto
  with Cons.IH [of st1] st1(2) Cons.prems obtain st2 where
    st2: "visit_deps n imgs st1 ds pth = Some (Inr st2)" "resolver_inv imgs st2"
      "extends rk b st1 st2" "set ds \<subseteq> res_names st2"
    by auto
  have "d \<in> res_names st2"
    using st1(4) extends_names [OF st2(3)] by auto
  with st2 e1 i st1(1) show ?case
    by (auto intro: extends_trans)
qed

lemma visit_ok:
  assumes valid: "\<And>k i d. map_of imgs k = Some i \<Longrightarrow> d \<in> set (depends_on i) \<Longrightarrow>
      \<exists>j. map_of imgs d = Some j \<and> name j = d \<and> rk d < rk k"
  shows "resolver_inv imgs st \<Longrightarrow> map_of imgs (name img) = Some img \<Longrightarrow>
      rk (name img) < n \<Longrightarrow> (\<forall>x\<in>in_progress st. rk (name img) < rk x) \<Longrightarrow>
      \<exists>st'. visit n imgs st img pth = Some (Inr st') \<and> resolver_inv imgs st' \<and>
        extends rk (Suc (rk (name img))) st st' \<and> name img \<in> res_names st'"
proof (induction n arbitrary: st img pth)
  case 0
  then show ?case by simp
next
  case (Suc n)
  show ?case
  proof (cases "name img \<in> res_names st")
    case True
    with Suc.prems show ?thesis
      by (simp add: res_names_def extends_refl)
  next
    case False
    have nv: "name img \<notin> visiting st"
      using Suc.prems(4) False unfolding in_progress_def by auto
    define st0 where "st0 = st\<lparr>visiting := insert (name img) (visiting st)\<rparr>"
    have inv0: "resolver_inv imgs st0"
      using Suc.prems(1) by (simp add: st0_def resolver_inv_def)
    have prog0: "in_progress st0 = insert (name img) (in_progress st)"
      using False by (auto simp: st0_def in_progress_def res_names_def)
    have deps: "\<forall>d\<in>set (sort (depends_on img)).
        \<exists>i. map_of imgs d = Some i \<and> name i = d \<and> rk d < rk (name img)"
      using valid [OF Suc.prems(2)] by auto
    have bound: "rk (name img) \<le> n" using Suc.prems(3) by simp
    have prog: "\<forall>x\<in>in_progress st0. rk (name img) \<le> rk x"
      using Suc.prems(4) by (auto simp: prog0 intro: less_imp_le)
    from visit_deps_ok [where rk = rk and b = "rk (name img)", OF Suc.IH inv0 deps bound prog]
    obtain st1 where st1:
      "visit_deps n imgs st0 (sort (depends_on img)) (pth @ [name img]) = Some (Inr st1)"
      "resolver_inv imgs st1" "extends rk (rk (name img)) st0 st1"
      "set (sort (depends_on img)) \<subseteq> res_names st1"
      by blast
    have fresh: "name img \<notin> res_names st1"
      using extends_new_rank [OF st1(3), of "name img"] False
      by (auto simp: st0_def res_names_def)
    define st2 where "st2 = st1\<lparr>resolved := od_set (name img) img (resolved st1)\<rparr>"
    have res2: "resolved st2 = resolved st1 @ [(name img, img)]"
      using fresh by (simp add: st2_def od_set_fresh res_names_def)
    have run: "visit (Suc n) imgs st img pth = Some (Inr st2)"
      using False nv st1(1) by (simp add: res_names_def st0_def st2_def)
    have inv2: "resolver_inv imgs st2"
      using st1(2,4) fresh Suc.prems(2)
      by (auto simp: resolver_inv_def res2 topological_from_append res_names_def image_image
          keyed_names)
    have ext2: "extends rk (Suc (rk (name img))) st st2"
    proof -
      from st1(3) obtain new where new: "resolved st1 = resolved st0 @ new"
        "list_all (\<lambda>(k, i). rk k < rk (name img)) new"
        and sub: "in_progress st1 \<subseteq> in_progress st0"
        unfolding extends_def by auto
      have "resolved st2 = resolved st @ (new @ [(name img, img)])"
        using new(1) by (simp add: res2 st0_def)
      moreover have "list_all (\<lambda>(k, i). rk k < Suc (rk (name img))) (new @ [(name img, img)])"
        using new(2) by (auto simp: list_all_iff)
      moreover have "in_progress st2 \<subseteq> in_progress st"
      proof -
        have "visiting st2 = visiting st1" by (simp add: st2_def)
        moreover have "res_names st2 = insert (name img) (res_names st1)"
          by (simp add: res_names_def res2)
        ultimately have "in_progress st2 = in_progress st1 - {name img}"
          by (auto simp: in_progress_def)
        with sub prog0 show ?thesis by auto
      qed
      ultimately show ?thesis unfolding extends_def by blast
    qed
    have "name img \<in> res_names st2" by (simp add: res_names_def res2)
    with run inv2 ext2 show ?thesis by blast
  qed
qed

lemma visit_targets_ok:
  assumes valid: "\<And>k i d. map_of imgs k = Some i \<Longrightarrow> d \<in> set (depends_on i) \<Longrightarrow>
      \<exists>j. map_of imgs d = Some j \<and> name j = d \<and> rk d < rk k"
  shows "resolver_inv imgs st \<Longrightarrow> in_progress st = {} \<Longrightarrow>
      (\<forall>t\<in>set ts. map_of imgs (name t) = Some t \<and> rk (name t) < n) \<Longrightarrow>
      \<exists>st'. visit_targets n imgs st ts = Some (Inr st') \<and> resolver_inv imgs st' \<and>
        res_names st \<subseteq> res_names st' \<and> name ` set ts \<subseteq> res_names st'"
proof (induction ts arbitrary: st)
  case Nil
  then show ?case by simp
next
  case (Cons t ts)
  have "\<exists>st'. visit n imgs st t [] = Some (Inr st') \<and> resolver_inv imgs st' \<and>
        extends rk (Suc (rk (name t))) st st' \<and> name t \<in> res_names st'"
    using Cons.prems by (intro visit_ok [where rk = rk] valid) auto
  then obtain st1 where
    st1: "visit n imgs st t [] = Some (Inr st1)" "resolver_inv imgs st1"
      "extends rk (Suc (rk (name t))) st st1" "name t \<in> res_names st1"
    by auto
  have "in_progress st1 = {}"
    using st1(3) Cons.prems(2) unfolding extends_def by auto
  with Cons.IH [of st1] st1(2) Cons.prems(3) obtain st2 where
    st2: "visit_targets n imgs st1 ts = Some (Inr st2)" "resolver_inv imgs st2"
      "res_names st1 \<subseteq> res_names st2" "name ` set ts \<subseteq> res_names st2"
    by auto
  have "res_names st \<subseteq> res_names st2"
    using extends_names [OF st1(3)] st2(3) by auto
  with st1(1,4) st2 show ?case by auto
qed

lemma dict_get_present:
  "k \<in> (\<lambda>r. name (image r)) ` set deps \<Longrightarrow> \<exists>r. dict_get deps k = Inr r"
  by (induction deps) auto

lemma lookup_all_present:
  "set ds \<subseteq> (\<lambda>r. name (image r)) ` set deps \<Longrightarrow> \<exists>rs. lookup_all deps ds = Inr rs"
proof (induction ds)
  case Nil
  then show ?case by simp
next
  case (Cons d ds)
  then obtain r rs where "dict_get deps d = Inr r" "lookup_all deps ds = Inr rs"
    using dict_get_present [of d deps] by auto
  then show ?case by simp
qed

lemma dict_put_fresh:
  "name (image r) \<notin> (\<lambda>r. name (image r)) ` set deps \<Longrightarrow> dict_put r deps = deps @ [r]"
  by (induction deps) auto

lemma DependencySet_loop_order:
  "topological_from ((\<lambda>r. name (image r)) ` set deps) ds \<Longrightarrow>
   distinct (map (\<lambda>r. name (image r)) deps @ map name ds) \<Longrightarrow>
   (\<exists>out. DependencySet_loop e known ds deps = Inr out \<and> map image out = map image deps @ ds)
   \<or> (\<exists>err r. DependencySet_loop e known ds deps = Inl err \<and> spec e r = Inl err)"
proof (induction ds arbitrary: deps)
  case Nil
  then show ?case by simp
next
  case (Cons d ds)
  from Cons.prems(1) obtain rs where rs: "lookup_all deps (depends_on d) = Inr rs"
    using lookup_all_present [of "depends_on d" deps] by auto
  define img where "img = ResolvedImage_init d rs"
  show ?case
  proof (cases "spec e img")
    case (Inl err)
    then show ?thesis by (auto simp: rs img_def)
  next
    case (Inr s)
    define r where "r = set_acquired (s \<in> known) img"
    have nm: "name (image r) = name d" by (simp add: r_def img_def)
    have put: "dict_put r deps = deps @ [r]"
      using Cons.prems(2) by (intro dict_put_fresh) (auto simp: nm)
    have step: "DependencySet_loop e known (d # ds) deps = DependencySet_loop e known ds (deps @ [r])"
      by (simp add: rs Inr img_def [symmetric] r_def [symmetric] put)
    have "topological_from ((\<lambda>r. name (image r)) ` set (deps @ [r])) ds"
      using Cons.prems(1) by (simp add: nm insert_commute)
    moreover have "distinct (map (\<lambda>r. name (image r)) (deps @ [r]) @ map name ds)"
      using Cons.prems(2) by (auto simp: nm)
    ultimately have "(\<exists>out. DependencySet_loop e known ds (deps @ [r]) = Inr out \<and>
          map image out = map image (deps @ [r]) @ ds)
        \<or> (\<exists>err r'. DependencySet_loop e known ds (deps @ [r]) = Inl err \<and> spec e r' = Inl err)"
      by (rule Cons.IH)
    moreover have "image r = d" by (simp add: r_def img_def)
    ultimately show ?thesis
      unfolding step by simp
  qed
qed

lemma topological_from_nth:
  "topological_from seen xs \<Longrightarrow> k < length xs \<Longrightarrow> d \<in> set (depends_on (xs ! k)) \<Longrightarrow>
   d \<in> seen \<or> (\<exists>j<k. name (xs ! j) = d)"
proof (induction xs arbitrary: seen k)
  case Nil
  then show ?case by simp
next
  case (Cons x xs)
  show ?case
  proof (cases k)
    case 0
    with Cons.prems show ?thesis by auto
  next
    case (Suc k')
    with Cons.prems Cons.IH [of "insert (name x) seen" k'] 
    have "d \<in> insert (name x) seen \<or> (\<exists>j<k'. name (xs ! j) = d)" by auto
    then show ?thesis using Suc by (auto intro: exI [of _ 0] exI [of _ "Suc _"])
  qed
qed

lemma finite_acyclic_rank:
  assumes "finite r" "acyclic r"
  shows "\<exists>rk :: 'a \<Rightarrow> nat. \<forall>x y. (x, y) \<in> r \<longrightarrow> rk x < rk y"
proof -
  define rk where "rk y = card {x. (x, y) \<in> r\<^sup>+}" for y
  have fin: "finite {x. (x, y) \<in> r\<^sup>+}" for y
  proof (rule finite_subset)
    show "{x. (x, y) \<in> r\<^sup>+} \<subseteq> Domain r"
      by (metis (mono_tags, lifting) Domain.DomainI mem_Collect_eq subsetI trancl_domain)
    show "finite (Domain r)" using assms(1) by (rule finite_Domain)
  qed
  have "rk x < rk y" if "(x, y) \<in> r" for x y
  proof -
    have "{z. (z, x) \<in> r\<^sup>+} \<subseteq> {z. (z, y) \<in> r\<^sup>+}"
      using that by (auto intro: trancl_into_trancl)
    moreover have "x \<in> {z. (z, y) \<in> r\<^sup>+}" using that by auto
    moreover have "x \<notin> {z. (z, x) \<in> r\<^sup>+}" using assms(2) by (auto simp: acyclic_def)
    ultimately have "{z. (z, x) \<in> r\<^sup>+} \<subset> {z. (z, y) \<in> r\<^sup>+}" by blast
    then show ?thesis unfolding rk_def by (intro psubset_card_mono fin)
  qed
  then show ?thesis by blast
qed

lemma finite_dep_edges: "finite (dep_edges imgs)"
proof (rule finite_subset)
  show "dep_edges imgs \<subseteq> (\<Union>i\<in>snd ` set imgs. set (depends_on i)) \<times> fst ` set imgs"
    unfolding dep_edges_def by (auto dest!: map_of_SomeD intro: rev_bexI rev_image_eqI)
  show "finite ((\<Union>i\<in>snd ` set imgs. set (depends_on i)) \<times> fst ` set imgs)"
    by simp
qed

lemma feed_deps_defined:
  "list_all (\<lambda>(nm, fp). \<exists>f. fp = Inr f) xs \<Longrightarrow> \<exists>h'. feed_deps xs h = Inr h'"
  by (induction xs arbitrary: h) auto

lemma feed_files_env0_defined: "\<exists>h'. feed_files env0 rt ps h = Inr h'"
proof -
  have "map (\<lambda>p. lstat_mode env0 (path_join rt p)) ps = map Some (map (\<lambda>_. 33188) ps)"
    by simp
  moreover have "map (\<lambda>p. file_contents env0 (path_join rt p)) ps
      = map Some (map (path_join rt) ps)"
    by simp
  ultimately have "feed_files env0 rt ps h = Inr (h @ concat (map (canonical_file_entry env0)
      (zip ps (zip (map (\<lambda>_. 33188) ps) (map (path_join rt) ps)))))"
    by (rule feed_files_canonical)
  then show ?thesis by blast
qed

lemma inputs_env0_defined: "\<exists>inp. inputs env0 (ResolvedImage img acq deps) False = Inr inp"
  by (simp add: Let_def)

lemma fingerprint_env0_defined: "\<exists>fp. fingerprint env0 r = Inr fp"
proof (induction r)
  case (ResolvedImage img acq deps)
  obtain inp where inp: "inputs env0 (ResolvedImage img acq deps) False = Inr inp"
    using inputs_env0_defined by blast
  obtain h where h: "feed_files env0 (root (rd img))
      (sorted_list_of_set (expand_globs env0 (root (rd img)) inp)) [] = Inr h"
    using feed_files_env0_defined by blast
  have "list_all (\<lambda>(nm, fp). \<exists>f. fp = Inr f)
      (map (\<lambda>dep. (name (image dep), fingerprint env0 dep))
         (sort_key (\<lambda>d. name (image d)) deps))"
    using ResolvedImage.IH by (auto simp: list_all_iff)
  from feed_deps_defined [OF this]
  have fd: "\<exists>f. feed_deps (map (\<lambda>dep. (name (image dep), fingerprint env0 dep))
         (sort_key (\<lambda>d. name (image d)) deps)) H = Inr f" for H
    by blast
  have nd: "feed_deps (map (\<lambda>dep. (name (image dep), fingerprint env0 dep))
         (sort_key (\<lambda>d. name (image d)) deps)) H \<noteq> Inl x" for H x
    using fd [of H] by auto
  show ?case
    by (simp add: inp h nd Let_def del: inputs.simps env0_simps split: sum.splits)
qed

lemma spec_env0_defined: "\<exists>s. spec env0 r = Inr s"
  using fingerprint_env0_defined [of r] by (auto simp: spec_def)

text \<open>
  C7. For every repository that \<open>Repository.__init__\<close> accepts and whose dependency graph is
  acyclic, and every list of target images of the repository, \<open>resolve_dependencies\<close>
  returns (for every sufficient bound on the depth of the recursion): either a
  \<open>DependencySet\<close> that contains the targets and in whose iteration order every image appears
  strictly after all of its dependencies, or an error that \<open>spec()\<close> raised for an image while
  the set was constructed (its files are unknown to git or unreadable).
\<close>

theorem resolve_dependencies_topological:
  assumes valid: "repository_valid (images repo)"
    and acyclic: "acyclic (dep_edges (images repo))"
    and targets: "list_all (\<lambda>t. map_of (images repo) (name t) = Some t) targets"
  shows "\<exists>n. \<forall>fuel\<ge>n.
    (\<exists>ds. resolve_dependencies fuel e repo targets = Some (Inr ds) \<and>
       name ` set targets \<subseteq> (\<lambda>r. name (image r)) ` set ds \<and>
       (\<forall>k<length ds. \<forall>d\<in>set (depends_on (image (ds ! k))).
          \<exists>j<k. name (image (ds ! j)) = d))
    \<or> (\<exists>err r. resolve_dependencies fuel e repo targets = Some (Inl err) \<and> spec e r = Inl err)"
proof -
  define imgs where "imgs = images repo"
  from finite_acyclic_rank [OF finite_dep_edges acyclic] obtain rk :: "string \<Rightarrow> nat" where
    rk: "\<And>d k. (d, k) \<in> dep_edges imgs \<Longrightarrow> rk d < rk k"
    unfolding imgs_def by blast
  have ok: "\<exists>j. map_of imgs d = Some j \<and> name j = d \<and> rk d < rk k"
    if "map_of imgs k = Some i" "d \<in> set (depends_on i)" for k i d
  proof -
    have "(k, i) \<in> set imgs" using that(1) by (rule map_of_SomeD)
    with valid that(2) obtain j where j: "map_of imgs d = Some j"
      unfolding repository_valid_def imgs_def by (fastforce simp: list_all_iff)
    then have "(d, j) \<in> set imgs" by (rule map_of_SomeD)
    with valid have "name j = d"
      unfolding repository_valid_def imgs_def by (fastforce simp: list_all_iff)
    moreover have "(d, k) \<in> dep_edges imgs"
      using that unfolding dep_edges_def by auto
    ultimately show ?thesis using j rk by auto
  qed
  define n where "n = Suc (sum_list (map (\<lambda>t. rk (name t)) targets))"
  have small: "rk (name t) < n" if "t \<in> set targets" for t
    using that member_le_sum_list [of "rk (name t)" "map (\<lambda>t. rk (name t)) targets"]
    by (auto simp: n_def)
  define st0 :: resolver_state where "st0 = \<lparr>resolved = [], visiting = {}\<rparr>"
  have inv0: "resolver_inv imgs st0" "in_progress st0 = {}"
    by (simp_all add: st0_def resolver_inv_def in_progress_def)
  show ?thesis
  proof (intro exI [of _ n] allI impI)
    fix fuel assume fuel: "n \<le> fuel"
    have pre: "\<forall>t\<in>set (sort_key name targets).
        map_of imgs (name t) = Some t \<and> rk (name t) < fuel"
      using targets small fuel by (fastforce simp: list_all_iff imgs_def)
    have "\<exists>st'. visit_targets fuel imgs st0 (sort_key name targets) = Some (Inr st') \<and>
        resolver_inv imgs st' \<and> res_names st0 \<subseteq> res_names st' \<and>
        name ` set (sort_key name targets) \<subseteq> res_names st'"
      using inv0 pre by (intro visit_targets_ok [where rk = rk] ok) auto
    then obtain st where
      st: "visit_targets fuel imgs st0 (sort_key name targets) = Some (Inr st)"
        "resolver_inv imgs st" "name ` set targets \<subseteq> res_names st"
      by auto
    define order where "order = map snd (resolved st)"
    have run: "resolve_dependencies fuel e repo targets = Some (DependencySet_init e order)"
      using st(1) by (simp add: resolve_dependencies_def imgs_def st0_def order_def)
    have names: "map name order = map fst (resolved st)"
      using st(2) unfolding resolver_inv_def order_def
      by (auto simp: list_all_iff)
    have topo: "topological_from {} order"
      using st(2) unfolding resolver_inv_def order_def by simp
    have "distinct (map fst (resolved st))"
      using st(2) unfolding resolver_inv_def by simp
    then have dist: "distinct (map name order)"
      by (simp only: names)
    from DependencySet_loop_order [of "[]" order e "docker_images e"] topo dist
    consider (ok) out where "DependencySet_init e order = Inr out" "map image out = order"
      | (err) err r where "DependencySet_init e order = Inl err" "spec e r = Inl err"
      unfolding DependencySet_init_def by auto
    then show "(\<exists>ds. resolve_dependencies fuel e repo targets = Some (Inr ds) \<and>
         name ` set targets \<subseteq> (\<lambda>r. name (image r)) ` set ds \<and>
         (\<forall>k<length ds. \<forall>d\<in>set (depends_on (image (ds ! k))).
            \<exists>j<k. name (image (ds ! j)) = d))
      \<or> (\<exists>err r. resolve_dependencies fuel e repo targets = Some (Inl err) \<and> spec e r = Inl err)"
    proof cases
      case ok
      have len: "length out = length order" using ok(2) by (metis length_map)
      have nth: "image (out ! k) = order ! k" if "k < length out" for k
        using ok(2) that by (metis nth_map)
      have "\<exists>j<k. name (image (out ! j)) = d"
        if "k < length out" "d \<in> set (depends_on (image (out ! k)))" for k d
      proof -
        from topological_from_nth [OF topo, of k d] that len nth
        obtain j where "j < k" "name (order ! j) = d" by auto
        then show ?thesis using nth [of j] that(1) by auto
      qed
      moreover have "name ` set targets \<subseteq> (\<lambda>r. name (image r)) ` set out"
      proof -
        have "(\<lambda>r. name (image r)) ` set out = name ` set (map image out)" by auto
        also have "\<dots> = set (map name order)" using ok(2) by simp
        also have "\<dots> = res_names st" by (simp add: names res_names_def)
        finally show ?thesis using st(3) by simp
      qed
      ultimately show ?thesis using run ok(1) by auto
    next
      case err
      then show ?thesis using run by auto
    qed
  qed
qed

lemma sort_c_b: "sort [''c'', ''b''] = [''b'', ''c'']"
  by code_simp

lemma order_dag:
  "visit_targets 3 (images repo_dag) \<lparr>resolved = [], visiting = {}\<rparr>
      [img_named ''a'' [''c'', ''b'']]
    = Some (Inr \<lparr>resolved = [(''c'', img_named ''c'' []), (''b'', img_named ''b'' [''c'']),
          (''a'', img_named ''a'' [''c'', ''b''])], visiting = {''a'', ''b'', ''c''}\<rparr>)"
  by (auto simp add: repo_dag_def img_named_def numeral_eq_Suc sort_c_b)

theorem resolve_dependencies_topological_witness:
  "repository_valid (images repo_dag) \<and> acyclic (dep_edges (images repo_dag))
   \<and> (\<exists>ds. resolve_dependencies 3 env0 repo_dag [img_named ''a'' [''c'', ''b'']] = Some (Inr ds)
         \<and> map image ds =
             [img_named ''c'' [], img_named ''b'' [''c''], img_named ''a'' [''c'', ''b'']])"
proof -
  have t: "list_all (\<lambda>t. map_of (images repo_dag) (name t) = Some t)
      [img_named ''a'' [''c'', ''b'']]"
    by (simp add: repo_dag_def img_named_def)
  have v: "repository_valid (images repo_dag)"
    by (simp add: repository_valid_def repo_dag_def img_named_def)
  have a: "acyclic (dep_edges (images repo_dag))"
  proof (rule acyclicI_order
      [where f = "\<lambda>n. if n = ''a'' then 0 else if n = ''b'' then 1 else (2::nat)"])
    fix d k assume "(d, k) \<in> dep_edges (images repo_dag)"
    then show "(if k = ''a'' then 0 else if k = ''b'' then 1 else (2::nat))
        < (if d = ''a'' then 0 else if d = ''b'' then 1 else 2)"
      by (auto simp: dep_edges_def repo_dag_def img_named_def split: if_splits)
  qed
  define order where
    "order = [img_named ''c'' [], img_named ''b'' [''c''], img_named ''a'' [''c'', ''b'']]"
  have run: "resolve_dependencies 3 env0 repo_dag [img_named ''a'' [''c'', ''b'']] =
      Some (DependencySet_init env0 order)"
    by (simp add: resolve_dependencies_def order_dag order_def del: visit_targets.simps)
  have "topological_from ((\<lambda>r. name (image r)) ` set []) order"
    "distinct (map (\<lambda>r. name (image r)) [] @ map name order)"
    by (simp_all add: order_def img_named_def)
  from DependencySet_loop_order [OF this, of env0 "docker_images env0"]
  have "(\<exists>out. DependencySet_init env0 order = Inr out \<and> map image out = order)
      \<or> (\<exists>err r. DependencySet_init env0 order = Inl err \<and> spec env0 r = Inl err)"
    unfolding DependencySet_init_def by simp
  moreover have "spec env0 r \<noteq> Inl err" for r err
    using spec_env0_defined [of r] by auto
  ultimately obtain ds where "DependencySet_init env0 order = Inr ds" "map image ds = order"
    by blast
  with run have ex: "\<exists>ds. resolve_dependencies 3 env0 repo_dag [img_named ''a'' [''c'', ''b'']]
         = Some (Inr ds) \<and> map image ds = order"
    by simp
  have goal: ?thesis
    using v a ex unfolding order_def by (intro conjI)
  show ?thesis
    using resolve_dependencies_topological [OF v a t, of env0] goal by - (rule goal)
qed


subsection \<open>Publication\<close>

lemma fingerprint_r_b: "fingerprint env0 r_b = Inr ''=Falsesanitizer=none''"
  by (simp add: witness_defs)

lemma spec_r_b: "spec env0 r_b = Inr ''materialize/b:mzbuild-=Falsesanitizer=none''"
  by (simp add: spec_def fingerprint_r_b docker_name_def) (simp add: img_b_def rd0_def)

lemma spec_r_b_pull_fails:
  "spec env_pull_fails r_b = Inr ''materialize/b:mzbuild-=Falsesanitizer=none''"
  by (simp add: spec_def env_pull_fails_def witness_defs docker_name_def)

text \<open>
  C2 (as stated, refuted). For the image \<open>b\<close>, which is not to be published,
  \<open>is_published_if_necessary()\<close> returns false, where the specification's reading is true.
\<close>

theorem unpublished_image_counterexample:
  "is_published_if_necessary env0 r_b \<noteq> Inr (spec_is_published env0 r_b)"
  by (simp add: is_published_if_necessary_def spec_is_published_def img_b_def)

text \<open>
  C2 (amended). \<open>is_published_if_necessary()\<close> returns true if and only if \<open>publish\<close> is true
  and the registry check confirms that the image's spec exists; it returns false for every
  image with \<open>publish\<close> false.
\<close>

theorem is_published_needs_publish:
  "(is_published_if_necessary e r = Inr True \<longleftrightarrow>
      publish (image r) \<and> (\<exists>s. spec e r = Inr s \<and> is_docker_image_pushed e s))
   \<and> (\<not> publish (image r) \<longrightarrow> is_published_if_necessary e r = Inr False)"
  by (auto simp: is_published_if_necessary_def split: sum.splits)

theorem is_published_needs_publish_witness:
  "is_published_if_necessary env0 r_a = Inr True \<and> publish (image r_a)
   \<and> (\<exists>s. spec env0 r_a = Inr s \<and> is_docker_image_pushed env0 s)
   \<and> \<not> publish (image r_b) \<and> is_published_if_necessary env0 r_b = Inr False"
  using is_published_needs_publish [of env0 r_a] is_published_needs_publish [of env0 r_b]
    spec_env0_defined [of r_a]
  by (auto simp: img_a_def img_b_def)

subsection \<open>Pulling\<close>

lemma try_pull_found: "try_pull e r d tr = Inr (found, r', tr') \<Longrightarrow> found"
  by (cases r) (auto simp: try_pull_def Let_def split: sum.splits if_splits)

lemma pull_all_builds_nothing:
  "pull_all e d ds i tr = Inr (ds', deps_to_build, tr') \<Longrightarrow> deps_to_build = []"
proof (induction ds arbitrary: i tr ds' deps_to_build tr')
  case Nil
  then show ?case by simp
next
  case (Cons dep ds)
  then show ?case
    by (auto split: sum.splits if_splits dest: try_pull_found)
qed

text \<open>
  C4. \<open>try_pull\<close> should return false when the pull fails after the retry budget, so that
  \<open>acquire\<close> builds the image. When \<open>run_with_retries\<close> raises, \<open>try_pull\<close> raises as well, and
  so does \<open>acquire\<close>, which builds nothing; and whatever \<open>run_with_retries\<close> does, \<open>try_pull\<close>
  never returns false.
\<close>

theorem try_pull_failure_raises:
  "try_pull env_pull_fails r_b 60 [] =
     Inl (CalledProcessError [''docker'', ''pull'', ''materialize/b:mzbuild-=Falsesanitizer=none''])
   \<and> acquire env_pull_fails [r_b] (Some 60) [] =
     Inl (CalledProcessError [''docker'', ''pull'', ''materialize/b:mzbuild-=Falsesanitizer=none''])
   \<and> try_pull e r d tr \<noteq> Inr (False, r', tr')"
  using try_pull_found [of e r d tr False r' tr']
  by (simp add: try_pull_def acquire_def spec_r_b_pull_fails) (auto simp: env_pull_fails_def)

subsection \<open>The attribute \<open>acquired\<close>\<close>

lemma build_frame:
  "build e pr r tr = Inr (r', tr') \<Longrightarrow>
   acquired r' = acquired r \<and> dependencies r' = dependencies r \<and>
   (image r')\<lparr>pre_images := pre_images (image r)\<rparr> = image r"
  by (auto simp: build_def Let_def split: sum.splits)

lemma try_pull_frame:
  "try_pull e r d tr = Inr (found, r', tr') \<Longrightarrow>
   image r' = image r \<and> dependencies r' = dependencies r \<and>
   (acquired r' \<longrightarrow> acquired r \<or> (\<exists>s. spec e r = Inr s \<and> pull_with_retries e s d = Inr ()))"
  by (auto simp: try_pull_def Let_def split: sum.splits if_splits)

lemma set_dict_put: "set (dict_put r deps) \<subseteq> insert r (set deps)"
  by (induction deps) auto

lemma DependencySet_loop_acquired:
  "DependencySet_loop e known imgs deps = Inr ds \<Longrightarrow>
   list_all (\<lambda>r. \<exists>s. spec e r = Inr s \<and> acquired r = (s \<in> known)) deps \<Longrightarrow>
   list_all (\<lambda>r. \<exists>s. spec e r = Inr s \<and> acquired r = (s \<in> known)) ds"
proof (induction imgs arbitrary: deps)
  case Nil
  then show ?case by simp
next
  case (Cons d imgs)
  from Cons.prems(1) obtain rs s where
    rs: "lookup_all deps (depends_on d) = Inr rs" and
    s: "spec e (ResolvedImage_init d rs) = Inr s" and
    loop: "DependencySet_loop e known imgs
        (dict_put (set_acquired (s \<in> known) (ResolvedImage_init d rs)) deps) = Inr ds"
    by (auto simp: Let_def split: sum.splits)
  have "list_all (\<lambda>r. \<exists>s. spec e r = Inr s \<and> acquired r = (s \<in> known))
      (dict_put (set_acquired (s \<in> known) (ResolvedImage_init d rs)) deps)"
    using Cons.prems(2) s
      set_dict_put [of "set_acquired (s \<in> known) (ResolvedImage_init d rs)" deps]
    by (auto simp: list_all_iff)
  with Cons.IH loop show ?case by blast
qed

lemma ensure_build_acquired:
  "ensure_build e pr None is ds imgs tr = Inr (ds', imgs', tr') \<Longrightarrow>
   map acquired ds' = map acquired ds"
proof (induction "is" arbitrary: ds imgs tr)
  case Nil
  then show ?case by simp
next
  case (Cons i "is")
  from Cons.prems obtain dep tr1 imgs1 where
    b: "build e pr (ds ! i) tr = Inr (dep, tr1)" and
    rest: "ensure_build e pr None is (ds[i := dep]) imgs1 tr1 = Inr (ds', imgs', tr')"
    by (auto split: sum.splits if_splits)
  have "map acquired (ds[i := dep]) = (map acquired ds)[i := acquired (ds ! i)]"
    using build_frame [OF b] by (simp add: map_update)
  also have "\<dots> = map acquired ds"
    by (cases "i < length ds") (simp_all add: list_update_same_conv list_update_beyond)
  finally have "map acquired (ds[i := dep]) = map acquired ds" .
  with Cons.IH [OF rest] show ?case by simp
qed

lemma pull_all_frame:
  "pull_all e d ds i tr = Inr (ds', deps_to_build, tr') \<Longrightarrow>
   list_all2 (\<lambda>r r'. image r' = image r \<and> (acquired r' \<longrightarrow> acquired r
      \<or> (\<exists>s. spec e r = Inr s \<and> pull_with_retries e s d = Inr ()))) ds ds'"
proof (induction ds arbitrary: i tr ds' deps_to_build tr')
  case Nil
  then show ?case by simp
next
  case (Cons dep ds)
  from Cons.prems obtain found dep' tr1 ds1 tb1 where
    p: "try_pull e dep d tr = Inr (found, dep', tr1)" and
    rest: "pull_all e d ds (Suc i) tr1 = Inr (ds1, tb1, tr')" and
    eq: "ds' = dep' # ds1"
    by (auto split: sum.splits)
  from try_pull_frame [OF p] Cons.IH [OF rest] eq show ?case by simp
qed

lemma prepare_batch_nothing: "prepare_batch e [] tr = Inr (\<lparr>prep_Copy = None, prep_CargoBuild = None\<rparr>, tr)"
  by (simp add: prepare_batch_def)

lemma acquire_frame:
  assumes "acquire e ds md tr = Inr (ds', tr')"
  shows "\<exists>d. list_all2 (\<lambda>r r'. image r' = image r \<and> (acquired r' \<longrightarrow> acquired r
      \<or> (\<exists>s. spec e r = Inr s \<and> pull_with_retries e s d = Inr ()))) ds ds'"
proof -
  from assms obtain d ds1 tb tr1 where
    p: "pull_all e d ds 0 tr = Inr (ds1, tb, tr1)" and
    rest: "(case prepare_batch e (map (\<lambda>i. ds1 ! i) tb) tr1 of Inl err \<Rightarrow> Inl err
        | Inr (pr, tr) \<Rightarrow> build_all e pr tb ds1 tr) = Inr (ds', tr')"
    by (auto simp: acquire_def Let_def split: sum.splits)
  have "tb = []" using p by (rule pull_all_builds_nothing)
  with rest have "ds' = ds1" by (simp add: prepare_batch_nothing)
  with pull_all_frame [OF p] show ?thesis by blast
qed

lemma ensure_frame:
  assumes "ensure e ds None tr = Inr (ds', tr')"
  shows "map acquired ds' = map acquired ds"
proof -
  from assms obtain pr tb tr1 imgs tr2 where
    "ensure_build e pr None tb ds [] tr1 = Inr (ds', imgs, tr2)"
    by (auto simp: ensure_def Let_def split: sum.splits)
  then show ?thesis by (rule ensure_build_acquired)
qed

lemma DependencySet_init_acquired:
  "DependencySet_init e imgs = Inr ds \<Longrightarrow>
   list_all (\<lambda>r. \<exists>s. spec e r = Inr s \<and> acquired r = (s \<in> docker_images e)) ds"
  unfolding DependencySet_init_def by (erule DependencySet_loop_acquired) simp

text \<open>
  C10. \<open>build()\<close> leaves \<open>acquired\<close> and \<open>dependencies\<close> unchanged, and of the image only the
  pre-image actions (on which \<open>CargoBuild.build\<close> sets its own attribute) may differ.
  \<open>acquired\<close> is true after \<open>DependencySet\<close> construction exactly when the spec is among the
  local Docker images; \<open>try_pull\<close> and \<open>acquire\<close> make it true only when the pull of the spec
  succeeded; and \<open>ensure\<close> (without a \<open>post_build\<close> callback) leaves it as it was for every
  image of the set, so an image it built that was not acquired is still not acquired.
\<close>

theorem build_leaves_acquired:
  "(build e pr r tr = Inr (r', tr') \<longrightarrow>
      acquired r' = acquired r \<and> dependencies r' = dependencies r \<and>
      (image r')\<lparr>pre_images := pre_images (image r)\<rparr> = image r)
   \<and> (DependencySet_init e imgs = Inr ds \<longrightarrow>
      list_all (\<lambda>r. \<exists>s. spec e r = Inr s \<and> acquired r = (s \<in> docker_images e)) ds)
   \<and> (try_pull e r d tr = Inr (found, r', tr') \<longrightarrow>
      image r' = image r \<and>
      (acquired r' \<longrightarrow> acquired r
         \<or> (\<exists>s. spec e r = Inr s \<and> pull_with_retries e s d = Inr ())))
   \<and> (ensure e ds None tr = Inr (ds', tr') \<longrightarrow> map acquired ds' = map acquired ds)
   \<and> (acquire e ds md tr = Inr (ds', tr') \<longrightarrow>
      (\<exists>d. list_all2 (\<lambda>r r'. image r' = image r \<and> (acquired r' \<longrightarrow> acquired r
         \<or> (\<exists>s. spec e r = Inr s \<and> pull_with_retries e s d = Inr ()))) ds ds'))"
  using build_frame [of e pr r tr r' tr'] DependencySet_init_acquired [of e imgs ds]
    try_pull_frame [of e r d tr found r' tr'] ensure_frame [of e ds tr ds' tr']
    acquire_frame [of e ds md tr ds' tr']
  by blast

lemma set_pre_images_r_b: "set_pre_images [] r_b = r_b"
  by (simp add: r_b_def img_b_def)

lemma write_dockerfile_r_b: "write_dockerfile env0 r_b = Inr ''b/Dockerfile''"
  by (simp add: write_dockerfile_def path_join_def img_b_def rewrite_line_def mzfrom_match_def)

lemma build_r_b: "build env0 pr r_b [] = Inr (r_b, build_trace_b)"
  by (simp add: build_def spec_r_b runv_def set_pre_images_r_b write_dockerfile_r_b Let_def
      build_trace_b_def img_b_def rd0_def)

lemma ResolvedImage_init_b: "ResolvedImage_init img_b [] = r_b"
  by (simp add: ResolvedImage_init_def r_b_def)

lemma set_acquired_False_r_b: "set_acquired False r_b = r_b"
  by (simp add: r_b_def)

lemma try_pull_r_b:
  "try_pull env0 r_b 0 [] =
     Inr (True, set_acquired True r_b,
          [PullWithRetries ''materialize/b:mzbuild-=Falsesanitizer=none'' 0])"
  by (simp add: try_pull_def spec_r_b)

lemma DependencySet_init_b: "DependencySet_init env0 [img_b] = Inr [r_b]"
proof -
  have "depends_on img_b = []" by (simp add: img_b_def)
  then show ?thesis
    by (simp add: DependencySet_init_def Let_def ResolvedImage_init_b spec_r_b
        set_acquired_False_r_b)
qed

lemma ensure_r_b: "ensure env0 [r_b] None [] = Inr ([r_b], build_trace_b)"
proof -
  have "publish (image r_b) = False" "pre_images (image r_b) = []"
    by (simp_all add: img_b_def)
  then show ?thesis
    by (simp add: ensure_def is_published_if_necessary_def prepare_batch_def build_r_b)
qed

lemma acquire_r_b:
  "acquire env0 [r_b] None [] =
     Inr ([set_acquired True r_b],
          [PullWithRetries ''materialize/b:mzbuild-=Falsesanitizer=none'' 0])"
  by (simp add: acquire_def try_pull_r_b prepare_batch_def)

theorem build_leaves_acquired_witness:
  "build env0 prep_none r_b [] = Inr (r_b, build_trace_b) \<and> acquired r_b = False
   \<and> DependencySet_init env0 [img_b] = Inr [r_b]
   \<and> spec env0 r_b = Inr ''materialize/b:mzbuild-=Falsesanitizer=none''
   \<and> ''materialize/b:mzbuild-=Falsesanitizer=none'' \<notin> docker_images env0
   \<and> try_pull env0 r_b 0 [] =
       Inr (True, set_acquired True r_b,
            [PullWithRetries ''materialize/b:mzbuild-=Falsesanitizer=none'' 0])
   \<and> pull_with_retries env0 ''materialize/b:mzbuild-=Falsesanitizer=none'' 0 = Inr ()
   \<and> ensure env0 [r_b] None [] = Inr ([r_b], build_trace_b)
   \<and> acquire env0 [r_b] None [] =
       Inr ([set_acquired True r_b],
            [PullWithRetries ''materialize/b:mzbuild-=Falsesanitizer=none'' 0])"
  using build_leaves_acquired [where e = env0 and pr = prep_none and r = r_b and tr = "[]"
      and r' = r_b and tr' = build_trace_b and imgs = "[img_b]" and ds = "[r_b]"
      and ds' = "[r_b]"]
    build_leaves_acquired [where e = env0 and r = r_b and tr = "[]"
      and r' = "set_acquired True r_b"
      and tr' = "[PullWithRetries ''materialize/b:mzbuild-=Falsesanitizer=none'' 0]"
      and d = 0 and found = True and ds = "[r_b]" and ds' = "[set_acquired True r_b]"
      and md = None]
  by (simp add: build_r_b DependencySet_init_b spec_r_b try_pull_r_b ensure_r_b acquire_r_b)

subsection \<open>The rendered Dockerfile\<close>

lemma concat_split_lines: "concat (split_lines s) = s"
  by (induction s) (auto split: list.splits)

lemma write_lines_rewritten:
  "write_lines e r ls f = Inr out \<Longrightarrow>
   \<exists>ls'. out = f @ concat ls' \<and> list_all2 (\<lambda>l l'. rewrite_line e r l = Inr l') ls ls'"
proof (induction ls arbitrary: f)
  case Nil
  then show ?case by simp
next
  case (Cons l ls)
  from Cons.prems obtain l' where l': "rewrite_line e r l = Inr l'"
    and rest: "write_lines e r ls (f @ l') = Inr out"
    by (auto split: sum.splits)
  from Cons.IH [OF rest] obtain ls' where
    "out = (f @ l') @ concat ls'" "list_all2 (\<lambda>l l'. rewrite_line e r l = Inr l') ls ls'"
    by blast
  with l' have "out = f @ concat (l' # ls') \<and>
      list_all2 (\<lambda>l l'. rewrite_line e r l = Inr l') (l # ls) (l' # ls')"
    by simp
  then show ?case by blast
qed

lemma rewrite_line_cases:
  "rewrite_line e r l = Inr l' \<Longrightarrow>
   (case mzfrom_match l of
      None \<Rightarrow> l' = l
    | Some (g, rest) \<Rightarrow>
        \<exists>dep s repl. dict_get (dependencies r) g = Inr dep \<and> spec e dep = Inr s \<and>
          expand_template e (''FROM '' @ s) g = Inr repl \<and> l' = repl @ rest \<and>
          (CHR 0x5C \<notin> set s \<longrightarrow> repl = ''FROM '' @ s))"
proof (cases "mzfrom_match l")
  case None
  then show ?thesis if "rewrite_line e r l = Inr l'"
    using that by (simp add: rewrite_line_def)
next
  case (Some p)
  obtain g rest where p: "p = (g, rest)" by (cases p)
  assume "rewrite_line e r l = Inr l'"
  then obtain dep s repl where
    d: "dict_get (dependencies r) g = Inr dep" "spec e dep = Inr s"
      "expand_template e (''FROM '' @ s) g = Inr repl" "l' = repl @ rest"
    by (auto simp: rewrite_line_def Some p decode_def split: sum.splits if_splits)
  have "CHR 0x5C \<notin> set s \<longrightarrow> repl = ''FROM '' @ s"
    using d(3) by (auto simp: expand_template_def)
  with d show ?thesis
    unfolding Some p by (simp del: append.simps)
qed

lemma proper_lines_split_lines: "proper_lines (split_lines s)"
proof (induction s)
  case Nil
  then show ?case by simp
next
  case (Cons c cs)
  show ?case
  proof (cases "split_lines cs")
    case Nil
    then show ?thesis by (simp add: proper_line_def)
  next
    case (Cons l ls)
    with Cons.IH have pl: "proper_line l" and rest: "proper_lines (l # ls)"
      by (cases ls; simp)+
    show ?thesis
    proof (cases "c = CHR 0x0A")
      case True
      with rest Cons show ?thesis by (simp add: proper_line_def)
    next
      case False
      have "proper_line (c # l)"
        using pl False by (auto simp: proper_line_def)
      moreover have "last (c # l) = last l"
        using pl by (simp add: proper_line_def)
      ultimately show ?thesis
        using False Cons rest by (cases ls) simp_all
    qed
  qed
qed

lemma split_lines_line:
  "proper_line l \<Longrightarrow> last l = CHR 0x0A \<Longrightarrow> split_lines (l @ s) = l # split_lines s"
proof (induction l)
  case Nil
  then show ?case by (simp add: proper_line_def)
next
  case (Cons c l)
  show ?case
  proof (cases "l = []")
    case True
    with Cons.prems show ?thesis by simp
  next
    case False
    with Cons.prems have "c \<noteq> CHR 0x0A" "proper_line l" "last l = CHR 0x0A"
      by (auto simp: proper_line_def)
    with Cons.IH show ?thesis by simp
  qed
qed

lemma split_lines_last_line:
  "l \<noteq> [] \<Longrightarrow> CHR 0x0A \<notin> set l \<Longrightarrow> split_lines l = [l]"
proof (induction l)
  case Nil
  then show ?case by simp
next
  case (Cons c l)
  then show ?case by (cases "l = []") auto
qed

lemma split_lines_concat: "proper_lines ls \<Longrightarrow> split_lines (concat ls) = ls"
proof (induction ls rule: proper_lines.induct)
  case 1
  then show ?case by simp
next
  case (2 l)
  show ?case
  proof (cases "last l = CHR 0x0A")
    case True
    with 2 split_lines_line [of l "[]"] show ?thesis by simp
  next
    case False
    have "set l = insert (last l) (set (butlast l))"
      using 2 by (metis proper_line_def proper_lines.simps(2) append_butlast_last_id
          list.simps(15) rotate1.simps(2) set_rotate1)
    with 2 False have "CHR 0x0A \<notin> set l" by (auto simp: proper_line_def)
    with 2 split_lines_last_line [of l] show ?thesis by (simp add: proper_line_def)
  qed
next
  case (3 l l2 ls)
  then show ?case by (simp add: split_lines_line)
qed

lemma mzfrom_match_shape:
  assumes "mzfrom_match l = Some (g, rest)"
  shows "\<exists>pre. l = pre @ rest \<and> pre \<noteq> [] \<and> last pre \<noteq> CHR 0x0A"
proof -
  define ws where "ws = takeWhile is_space (drop 6 l)"
  define rest0 where "rest0 = dropWhile is_space (drop 6 l)"
  from assms have m: "take 6 l = ''MZFROM''"
    and g: "g = takeWhile (\<lambda>c. \<not> is_space c) rest0" "g \<noteq> []"
    and rest: "rest = dropWhile (\<lambda>c. \<not> is_space c) rest0"
    by (auto simp: mzfrom_match_def Let_def rest0_def split: if_splits)
  have "l = take 6 l @ drop 6 l" by simp
  also have "drop 6 l = ws @ rest0" by (simp add: ws_def rest0_def)
  also have "rest0 = g @ rest" by (simp add: g rest)
  finally have l: "l = (take 6 l @ ws @ g) @ rest" by simp
  have "last g \<in> set g" using g(2) by simp
  then have "\<not> is_space (last g)"
    unfolding g(1) by (auto dest: set_takeWhileD)
  then have "last g \<noteq> CHR 0x0A" by (auto simp: is_space_def)
  then have "last (take 6 l @ ws @ g) \<noteq> CHR 0x0A" using g(2) by simp
  with l g(2) show ?thesis by blast
qed

lemma proper_line_replace:
  assumes "proper_line l" "l = pre @ rest" "pre \<noteq> []" "last pre \<noteq> CHR 0x0A"
    "repl \<noteq> []" "CHR 0x0A \<notin> set repl"
  shows "proper_line (repl @ rest) \<and> (last (repl @ rest) = CHR 0x0A \<longleftrightarrow> last l = CHR 0x0A)"
proof (cases "rest = []")
  case True
  have "last repl \<in> set repl" using assms(5) by simp
  with assms(6) have "last repl \<noteq> CHR 0x0A" by auto
  with assms True show ?thesis
    by (auto simp: proper_line_def dest: in_set_butlastD)
next
  case False
  with assms(1,2) have "CHR 0x0A \<notin> set (butlast rest)"
    by (simp add: proper_line_def butlast_append)
  with assms False show ?thesis
    by (simp add: proper_line_def butlast_append)
qed

lemma proper_lines_rel:
  "list_all2 (\<lambda>l l'. proper_line l \<longrightarrow>
      proper_line l' \<and> (last l' = CHR 0x0A \<longleftrightarrow> last l = CHR 0x0A)) ls ls' \<Longrightarrow>
   proper_lines ls \<Longrightarrow> proper_lines ls'"
proof (induction ls arbitrary: ls' rule: proper_lines.induct)
  case 1
  then show ?case by simp
next
  case (2 l)
  then show ?case by (auto simp: list_all2_Cons1)
next
  case (3 l l2 ls)
  from "3.prems"(1) obtain l' ls1 where ls': "ls' = l' # ls1"
    and h: "proper_line l \<longrightarrow> proper_line l' \<and> (last l' = CHR 0x0A \<longleftrightarrow> last l = CHR 0x0A)"
    and t: "list_all2 (\<lambda>l l'. proper_line l \<longrightarrow>
      proper_line l' \<and> (last l' = CHR 0x0A \<longleftrightarrow> last l = CHR 0x0A)) (l2 # ls) ls1"
    by (auto simp: list_all2_Cons1)
  from t obtain l2' ls2 where ls1: "ls1 = l2' # ls2" by (auto simp: list_all2_Cons1)
  from "3.IH" [OF t] "3.prems"(2) have "proper_lines ls1" by simp
  with h "3.prems"(2) show ?case by (simp add: ls' ls1)
qed

lemma dict_get_member: "dict_get ds k = Inr r \<Longrightarrow> r \<in> set ds"
  by (induction ds) (auto split: if_splits)

text \<open>
  C8. The bytes \<open>write_dockerfile()\<close> produces are the lines of the source file, in order and
  one for one: a line the pattern \<open>^MZFROM\s*(\S+)\<close> does not match is written as it is, and a
  line it matches is written as the expansion of the template \<open>FROM <spec>\<close> (the template
  itself when the spec has no backslash), for the spec of the dependency the line names,
  followed by the rest of the line after the name. When no spec of a dependency contains a
  line feed or a backslash, the lines of the output are exactly these lines, so the
  number of lines is preserved.
\<close>

theorem write_dockerfile_faithful:
  assumes src: "file_contents e (path_join (path (image r)) ''Dockerfile'') = Some src"
    and out: "write_dockerfile e r = Inr out"
  shows "\<exists>ls'. out = concat ls' \<and> src = concat (split_lines src) \<and>
     length ls' = length (split_lines src) \<and>
     (\<forall>i<length ls'.
        case mzfrom_match (split_lines src ! i) of
          None \<Rightarrow> ls' ! i = split_lines src ! i
        | Some (g, rest) \<Rightarrow>
            \<exists>dep s repl. dict_get (dependencies r) g = Inr dep \<and> spec e dep = Inr s \<and>
              expand_template e (''FROM '' @ s) g = Inr repl \<and> ls' ! i = repl @ rest \<and>
              (CHR 0x5C \<notin> set s \<longrightarrow> repl = ''FROM '' @ s)) \<and>
     ((\<forall>dep s. dep \<in> set (dependencies r) \<and> spec e dep = Inr s \<longrightarrow>
          CHR 0x0A \<notin> set s \<and> CHR 0x5C \<notin> set s) \<longrightarrow>
      split_lines out = ls')"
proof -
  define ls where "ls = split_lines src"
  from out src have "write_lines e r ls [] = Inr out"
    by (simp add: write_dockerfile_def ls_def)
  from write_lines_rewritten [OF this] obtain ls' where
    o: "out = concat ls'" and rel: "list_all2 (\<lambda>l l'. rewrite_line e r l = Inr l') ls ls'"
    by auto
  have len: "length ls' = length ls"
    using rel by (simp add: list_all2_lengthD)
  have each: "case mzfrom_match (ls ! i) of
          None \<Rightarrow> ls' ! i = ls ! i
        | Some (g, rest) \<Rightarrow>
            \<exists>dep s repl. dict_get (dependencies r) g = Inr dep \<and> spec e dep = Inr s \<and>
              expand_template e (''FROM '' @ s) g = Inr repl \<and> ls' ! i = repl @ rest \<and>
              (CHR 0x5C \<notin> set s \<longrightarrow> repl = ''FROM '' @ s)"
    if "i < length ls'" for i
  proof (rule rewrite_line_cases)
    show "rewrite_line e r (ls ! i) = Inr (ls' ! i)"
      using list_all2_nthD [OF rel, of i] that len by simp
  qed
  have lines: "split_lines out = ls'"
    if ok: "\<forall>dep s. dep \<in> set (dependencies r) \<and> spec e dep = Inr s \<longrightarrow>
          CHR 0x0A \<notin> set s \<and> CHR 0x5C \<notin> set s"
  proof -
    have "proper_line l' \<and> (last l' = CHR 0x0A \<longleftrightarrow> last l = CHR 0x0A)"
      if rw: "rewrite_line e r l = Inr l'" and pl: "proper_line l" for l l'
    proof (cases "mzfrom_match l")
      case None
      with rewrite_line_cases [OF rw] pl show ?thesis by simp
    next
      case (Some p)
      obtain g rest where p: "p = (g, rest)" by (cases p)
      from rewrite_line_cases [OF rw] obtain dep s repl where
        d: "dict_get (dependencies r) g = Inr dep" "spec e dep = Inr s" "l' = repl @ rest"
          "CHR 0x5C \<notin> set s \<longrightarrow> repl = ''FROM '' @ s"
        unfolding Some p by auto
      from d(1) have "dep \<in> set (dependencies r)" by (rule dict_get_member)
      with ok d(2) have "CHR 0x0A \<notin> set s" "CHR 0x5C \<notin> set s" by auto
      with d(4) have repl: "repl \<noteq> []" "CHR 0x0A \<notin> set repl" by auto
      from mzfrom_match_shape [OF Some [unfolded p]] obtain pre where
        "l = pre @ rest" "pre \<noteq> []" "last pre \<noteq> CHR 0x0A" by blast
      from proper_line_replace [OF pl this repl] show ?thesis by (simp add: d(3))
    qed
    with rel have "list_all2 (\<lambda>l l'. proper_line l \<longrightarrow>
        proper_line l' \<and> (last l' = CHR 0x0A \<longleftrightarrow> last l = CHR 0x0A)) ls ls'"
      by (auto elim!: list_all2_mono)
    then have "proper_lines ls'"
      by (rule proper_lines_rel) (simp add: ls_def proper_lines_split_lines)
    then show ?thesis unfolding o by (rule split_lines_concat)
  qed
  from o len each lines show ?thesis
    unfolding ls_def by (intro exI [of _ ls']) (simp add: concat_split_lines)
qed

lemma spec_r_b_dockerfile:
  "spec env_dockerfile r_b = Inr ''materialize/b:mzbuild-=Falsesanitizer=none''"
  by (simp add: spec_def env_dockerfile_def witness_defs docker_name_def)

lemma split_lines_example:
  "split_lines ''MZFROM b AS x\<newline>RUN true\<newline>'' = [''MZFROM b AS x\<newline>'', ''RUN true\<newline>'']"
  by simp

lemma mzfrom_match_example:
  "mzfrom_match ''MZFROM b AS x\<newline>'' = Some (''b'', '' AS x\<newline>'')"
  "mzfrom_match ''RUN true\<newline>'' = None"
  by (simp_all add: mzfrom_match_def is_space_def)

theorem write_dockerfile_faithful_witness:
  "file_contents env_dockerfile (path_join (path (image r_a)) ''Dockerfile'') =
     Some ''MZFROM b AS x\<newline>RUN true\<newline>''
   \<and> write_dockerfile env_dockerfile r_a =
     Inr ''FROM materialize/b:mzbuild-=Falsesanitizer=none AS x\<newline>RUN true\<newline>''"
proof -
  have src: "file_contents env_dockerfile (path_join (path (image r_a)) ''Dockerfile'') =
     Some ''MZFROM b AS x\<newline>RUN true\<newline>''"
    by (simp add: env_dockerfile_def path_join_def img_a_def)
  have nm: "name img_b = ''b''" by (simp add: img_b_def)
  have dec: "decodes env_dockerfile = (\<lambda>b. True)"
    by (simp add: env_dockerfile_def)
  have rw1: "rewrite_line env_dockerfile r_a ''MZFROM b AS x\<newline>'' =
      Inr ''FROM materialize/b:mzbuild-=Falsesanitizer=none AS x\<newline>''"
    by (simp add: rewrite_line_def mzfrom_match_example decode_def dec nm spec_r_b_dockerfile
        expand_template_def)
  have rw2: "rewrite_line env_dockerfile r_a ''RUN true\<newline>'' = Inr ''RUN true\<newline>''"
    by (simp add: rewrite_line_def mzfrom_match_example)
  have out: "write_dockerfile env_dockerfile r_a =
     Inr ''FROM materialize/b:mzbuild-=Falsesanitizer=none AS x\<newline>RUN true\<newline>''"
    using src by (simp add: write_dockerfile_def split_lines_example rw1 rw2)
  from write_dockerfile_faithful [OF src out] src out show ?thesis by simp
qed

end
